theory Spec2Isabelle
  imports
    Main
    "HOL-Library.Sublist"
    "HOL-Library.Char_ord"
    "HOL-Library.List_Lexorder"
    "HOL-Library.Product_Lexorder"
    "HOL-Library.Multiset"
    "HOL-Library.AList"
begin

section \<open>Python values used by the DevDocs client\<close>

text \<open>
  Python strings are modelled as \<open>string\<close> (lists of 8-bit characters), so the model
  covers ASCII text: \<open>str.lower\<close>, \<open>str.strip\<close> and \<open>str.splitlines\<close> are given
  with their behaviour on ASCII. Comparison of strings is lexicographic on character
  codes (\<open>Char_ord\<close>, \<open>List_Lexorder\<close>), comparison of tuples is lexicographic
  (\<open>Product_Lexorder\<close>), as in Python.
\<close>

definition lower_char :: "char \<Rightarrow> char" where
  "lower_char c =
     (if CHR ''A'' \<le> c \<and> c \<le> CHR ''Z'' then char_of (of_char c + (32::nat)) else c)"

definition lower :: "string \<Rightarrow> string" where
  "lower s = map lower_char s"

text \<open>
  \<open>str.isspace\<close> on ASCII: tab, line feed, vertical tab, form feed, carriage return,
  the four separators \<open>0x1c\<close> to \<open>0x1f\<close>, and space. \<open>str.strip()\<close> removes
  such characters at both ends.
\<close>

definition isspace :: "char \<Rightarrow> bool" where
  "isspace c = ((of_char c :: nat) \<in> set [9, 10, 11, 12, 13, 28, 29, 30, 31, 32])"

definition strip :: "string \<Rightarrow> string" where
  "strip s = rev (dropWhile isspace (rev (dropWhile isspace s)))"

text \<open>
  \<open>str.splitlines()\<close>: the ASCII line boundaries are line feed, carriage return (with
  a following line feed, one boundary), vertical tab, form feed and \<open>0x1c\<close> to
  \<open>0x1e\<close>; the boundaries are dropped, and a boundary at the very end opens no
  further line. The first argument is the line read so far, reversed.
\<close>

definition is_linebreak :: "char \<Rightarrow> bool" where
  "is_linebreak c = ((of_char c :: nat) \<in> set [10, 11, 12, 13, 28, 29, 30])"

fun splitlines_from :: "string \<Rightarrow> string \<Rightarrow> string list" where
  "splitlines_from cur [] = (if cur = [] then [] else [rev cur])"
| "splitlines_from cur [c] = (if is_linebreak c then [rev cur] else [rev (c # cur)])"
| "splitlines_from cur (c # d # cs) =
     (if c = CHR 0x0D \<and> d = CHR 0x0A then rev cur # splitlines_from [] cs
      else if is_linebreak c then rev cur # splitlines_from [] (d # cs)
      else splitlines_from (c # cur) (d # cs))"

definition splitlines :: "string \<Rightarrow> string list" where
  "splitlines s = splitlines_from [] s"

text \<open>
  \<open>line.split("  ")\<close>, the split at the separator of two spaces: occurrences are
  found from the left and do not overlap, and the result has one more piece than there
  are occurrences (so it is never empty).
\<close>

fun split_from :: "string \<Rightarrow> string \<Rightarrow> string list" where
  "split_from cur [] = [rev cur]"
| "split_from cur [c] = [rev (c # cur)]"
| "split_from cur (c # d # cs) =
     (if c = CHR '' '' \<and> d = CHR '' '' then rev cur # split_from [] cs
      else split_from (c # cur) (d # cs))"

definition split_two_spaces :: "string \<Rightarrow> string list" where
  "split_two_spaces s = split_from [] s"

text \<open>\<open>sep.join(parts)\<close>.\<close>

fun join :: "string \<Rightarrow> string list \<Rightarrow> string" where
  "join sep [] = []"
| "join sep [x] = x"
| "join sep (x # y # ys) = x @ sep @ join sep (y # ys)"

text \<open>
  Exceptions are values: a class and the message that \<open>str(e)\<close> returns. Every class
  below is a subclass of Python's \<open>Exception\<close>.
\<close>

datatype exn_class =
    ImportError | CalledProcessError | FileNotFoundError | TimeoutExpired
  | HTTPStatusError | RequestError | JSONDecodeError | ParserRejectedMarkup
  | IndexError | ValueError | PermissionError | RuntimeError | Exception

datatype exn = Exn exn_class string

fun exn_kind :: "exn \<Rightarrow> exn_class" where
  "exn_kind (Exn k m) = k"

fun str :: "exn \<Rightarrow> string" where
  "str (Exn k m) = m"

section \<open>Data model\<close>

text \<open>
  A documentation set of the catalog, an entry of an index and the index itself are JSON
  objects read with \<open>dict.get\<close>; a field that may be missing is an \<open>option\<close>, and
  \<open>get_default\<close> is \<open>d.get(key, default)\<close>.
\<close>

record docset =
  doc_name :: string
  doc_slug :: string
  doc_type :: string
  doc_version :: "string option"

record entry =
  entry_name :: "string option"
  entry_path :: "string option"
  entry_type :: "string option"

record index =
  entries :: "entry list option"
  types :: "(string \<times> string) list"

definition get_default :: "'a option \<Rightarrow> 'a \<Rightarrow> 'a" where
  "get_default field dflt = (case field of None \<Rightarrow> dflt | Some v \<Rightarrow> v)"

text \<open>
  The tree that the markup parser returns: text strings and elements with a tag name,
  attributes and contents. The \<open>BeautifulSoup\<close> object is the list of the top-level
  nodes. Strings that \<open>get_text\<close> skips (comments, declarations) are not represented.
\<close>

datatype node = Text string | Element string "(string \<times> string) list" "node list"

text \<open>A heading of the outline, the result of page-info extraction, and a value of a Page dict.\<close>

record heading =
  sec_text :: string
  sec_level :: int
  sec_id :: string

record page_details =
  info_title :: "string option"
  info_sections :: "heading list"

datatype pyval = PyNone | PyStr string | PySections "heading list"

type_synonym page = "(string \<times> pyval) list"

section \<open>Transport and the engine instance\<close>

text \<open>
  A response of the documentation host: its status code, the message with which
  \<open>raise_for_status\<close> raises for it, and its body. \<open>raise_for_status\<close> raises
  \<open>HTTPStatusError\<close> for every status that is not a success (200 to 299).
\<close>

record response =
  status_code :: nat
  reason :: string
  body :: string

text \<open>
  Everything outside the repository is a parameter, collected in a record:
  the network (the response to the \<open>n\<close>-th request of the instance, for a URL),
  the JSON decoder behind \<open>response.json()\<close>, the markup parser behind
  \<open>BeautifulSoup(html, 'html.parser')\<close>, and the two optional converters of the
  extraction pipeline: \<open>docs_cleaner\<close> is the import of \<open>scripts.clean_docs\<close>, the
  construction of its \<open>DocsCleaner\<close> and the call of \<open>clean_html\<close> (a module that
  may be absent, which is the \<open>ImportError\<close>), \<open>pandoc\<close> is the standard output of
  the \<open>subprocess.run\<close> of the pandoc executable, or the exception it raises.
\<close>

record env =
  net :: "nat \<Rightarrow> string \<Rightarrow> exn + response"
  json_docs :: "string \<Rightarrow> exn + docset list"
  json_index :: "string \<Rightarrow> exn + index"
  html_parser :: "string \<Rightarrow> exn + node list"
  docs_cleaner :: "string \<Rightarrow> exn + string"
  pandoc :: "string \<Rightarrow> exn + string"

text \<open>
  The state of one \<open>DevDocsClient\<close>: its base URL, the memoized catalog
  \<open>_docs_cache\<close>, and the log of the URLs it has requested (a ghost field that
  makes network round trips observable).
\<close>

record client =
  base_url :: string
  docs_cache :: "docset list option"
  requests :: "string list"

definition http_get :: "env \<Rightarrow> client \<Rightarrow> string \<Rightarrow> (exn + response) \<times> client" where
  "http_get w c url = (net w (length (requests c)) url, c\<lparr>requests := requests c @ [url]\<rparr>)"

definition raise_for_status :: "response \<Rightarrow> exn + response" where
  "raise_for_status r =
     (if 200 \<le> status_code r \<and> status_code r < 300 then Inr r
      else Inl (Exn HTTPStatusError (reason r)))"

definition get_doc_index :: "env \<Rightarrow> client \<Rightarrow> string \<Rightarrow> (exn + index) \<times> client" where
  "get_doc_index w c slug =
     (case http_get w c (base_url c @ ''/docs/'' @ slug @ ''/index.json'') of
        (Inl e, c1) \<Rightarrow> (Inl e, c1)
      | (Inr r, c1) \<Rightarrow>
          (case raise_for_status r of
             Inl e \<Rightarrow> (Inl e, c1)
           | Inr r1 \<Rightarrow> (json_index w (body r1), c1)))"

section \<open>Entry search\<close>

text \<open>
  The inner function \<open>sort_key\<close> of \<open>search_doc_entries\<close>; \<open>query_lower\<close> is
  the variable it closes over.
\<close>

definition sort_key_entry :: "string \<Rightarrow> entry \<Rightarrow> nat \<times> string" where
  "sort_key_entry query_lower e =
     (let name = lower (get_default (entry_name e) '''')
      in if name = query_lower then (0, name)
         else if prefix query_lower name then (1, name)
         else (2, name))"

text \<open>The filter loop: \<open>query_lower in name\<close> is the test for a contiguous substring.\<close>

definition is_match :: "string \<Rightarrow> entry \<Rightarrow> bool" where
  "is_match query_lower e = sublist query_lower (lower (get_default (entry_name e) ''''))"

text \<open>
  \<open>sorted(matches, key=sort_key)[:20]\<close>. Python's \<open>sorted\<close> is a stable sort by
  key; \<open>sort_key\<close> of the list library is one too, and lemma \<open>stable_sort_unique\<close>
  below shows that the result of a stable sort does not depend on the algorithm.
\<close>

definition rank_matches :: "string \<Rightarrow> entry list \<Rightarrow> entry list" where
  "rank_matches query es =
     (let query_lower = lower query;
          matches = filter (is_match query_lower) es
      in take 20 (sort_key (sort_key_entry query_lower) matches))"

definition search_doc_entries ::
    "env \<Rightarrow> client \<Rightarrow> string \<Rightarrow> string \<Rightarrow> (exn + entry list) \<times> client" where
  "search_doc_entries w c slug query =
     (case get_doc_index w c slug of
        (Inl e, c1) \<Rightarrow> (Inl e, c1)
      | (Inr idx, c1) \<Rightarrow> (Inr (rank_matches query (get_default (entries idx) [])), c1))"

section \<open>Catalog, with memoization\<close>

text \<open>
  \<open>self._docs_cache\<close> is \<open>None\<close> until the first catalog is stored. The decoded
  body is a list of documentation sets, the type that \<open>get_available_docs\<close> declares
  (\<open>List[Dict[str, Any]]\<close>); an empty list is a catalog like any other.
\<close>

definition get_available_docs :: "env \<Rightarrow> client \<Rightarrow> (exn + docset list) \<times> client" where
  "get_available_docs w c =
     (case docs_cache c of
        Some docs \<Rightarrow> (Inr docs, c)
      | None \<Rightarrow>
          (case http_get w c (base_url c @ ''/docs.json'') of
             (Inl e, c1) \<Rightarrow> (Inl e, c1)
           | (Inr r, c1) \<Rightarrow>
               (case raise_for_status r of
                  Inl e \<Rightarrow> (Inl e, c1)
                | Inr r1 \<Rightarrow>
                    (case json_docs w (body r1) of
                       Inl e \<Rightarrow> (Inl e, c1)
                     | Inr docs \<Rightarrow> (Inr docs, c1\<lparr>docs_cache := Some docs\<rparr>)))))"

section \<open>Content fetcher\<close>

definition get_doc_content ::
    "env \<Rightarrow> client \<Rightarrow> string \<Rightarrow> string \<Rightarrow> (exn + string) \<times> client" where
  "get_doc_content w c slug path =
     (case http_get w c (base_url c @ ''/docs/'' @ slug @ ''/'' @ path @ ''.html'') of
        (Inl e, c1) \<Rightarrow> (Inl e, c1)
      | (Inr r, c1) \<Rightarrow>
          (case raise_for_status r of
             Inl e \<Rightarrow> (Inl e, c1)
           | Inr r1 \<Rightarrow> (Inr (body r1), c1)))"

section \<open>Operations on the markup tree\<close>

text \<open>The elements of a tree in document order (an element before its contents).\<close>

fun descendants :: "node \<Rightarrow> node list" where
  "descendants (Text t) = []"
| "descendants (Element nm attrs cs) = Element nm attrs cs # concat (map descendants cs)"

definition soup_elements :: "node list \<Rightarrow> node list" where
  "soup_elements soup = concat (map descendants soup)"

fun tag_name :: "node \<Rightarrow> string" where
  "tag_name (Text t) = []"
| "tag_name (Element nm attrs cs) = nm"

text \<open>\<open>tag.get(key, default)\<close>: the value of an attribute.\<close>

fun attr_get :: "node \<Rightarrow> string \<Rightarrow> string \<Rightarrow> string" where
  "attr_get (Text t) k dflt = dflt"
| "attr_get (Element nm attrs cs) k dflt = get_default (map_of attrs k) dflt"

text \<open>\<open>soup.find_all(names)\<close> and \<open>soup(names)\<close>: the elements with one of the tag names.\<close>

definition find_all :: "string list \<Rightarrow> node list \<Rightarrow> node list" where
  "find_all names soup = filter (\<lambda>el. tag_name el \<in> set names) (soup_elements soup)"

text \<open>
  The strings below a node in document order; \<open>get_text()\<close> concatenates them, and
  \<open>get_text(strip=True)\<close> strips each one and drops those that become empty.
\<close>

fun all_strings :: "node \<Rightarrow> string list" where
  "all_strings (Text t) = [t]"
| "all_strings (Element nm attrs cs) = concat (map all_strings cs)"

definition get_text :: "node list \<Rightarrow> string" where
  "get_text soup = concat (concat (map all_strings soup))"

definition get_text_strip :: "node \<Rightarrow> string" where
  "get_text_strip el = concat (filter (\<lambda>s. s \<noteq> []) (map strip (all_strings el)))"

text \<open>
  The loop \<open>for script in soup(["script", "style"]): script.decompose()\<close> takes every
  element with one of these names out of the tree, with all that it contains.
\<close>

fun decompose :: "string list \<Rightarrow> node \<Rightarrow> node list" where
  "decompose names (Text t) = [Text t]"
| "decompose names (Element nm attrs cs) =
     (if nm \<in> set names then []
      else [Element nm attrs (concat (map (decompose names) cs))])"

definition decompose_all :: "string list \<Rightarrow> node list \<Rightarrow> node list" where
  "decompose_all names soup = concat (map (decompose names) soup)"

section \<open>Extraction pipeline\<close>

text \<open>The final fallback of \<open>extract_text_content\<close>, on the parsed fragment.\<close>

definition naive_text :: "node list \<Rightarrow> string" where
  "naive_text soup =
     (let text = get_text (decompose_all [''script'', ''style''] soup);
          lines = map strip (splitlines text);
          chunks = concat (map (\<lambda>line. map strip (split_two_spaces line)) lines)
      in join '' '' (filter (\<lambda>chunk. chunk \<noteq> []) chunks))"

definition fallback_naive :: "env \<Rightarrow> string \<Rightarrow> exn + string" where
  "fallback_naive w html =
     (case html_parser w html of
        Inl e \<Rightarrow> Inl e
      | Inr soup \<Rightarrow> Inr (naive_text soup))"

text \<open>
  The second \<open>try\<close>: its \<open>except\<close> clause names \<open>CalledProcessError\<close>,
  \<open>FileNotFoundError\<close> and \<open>TimeoutExpired\<close>; any other exception leaves the function.
\<close>

definition fallback_pandoc :: "env \<Rightarrow> string \<Rightarrow> exn + string" where
  "fallback_pandoc w html =
     (case pandoc w html of
        Inl e \<Rightarrow>
          (if exn_kind e \<in> set [CalledProcessError, FileNotFoundError, TimeoutExpired]
           then fallback_naive w html else Inl e)
      | Inr stdout \<Rightarrow> (if stdout \<noteq> [] then Inr stdout else fallback_naive w html))"

text \<open>The first \<open>try\<close>: its \<open>except\<close> clause names \<open>ImportError\<close> only.\<close>

definition extract_text_content :: "env \<Rightarrow> string \<Rightarrow> exn + string" where
  "extract_text_content w html =
     (case docs_cleaner w html of
        Inl e \<Rightarrow> (if exn_kind e = ImportError then fallback_pandoc w html else Inl e)
      | Inr markdown \<Rightarrow>
          (if markdown \<noteq> [] \<and> strip markdown \<noteq> [] then Inr markdown
           else fallback_pandoc w html))"

section \<open>Page info extractor\<close>

text \<open>
  \<open>soup.select_one(selector)\<close> for the two kinds of selector the code uses: a tag
  name, and a class name after a dot. The classes of an element are the
  whitespace-separated words of its \<open>class\<close> attribute.
\<close>

fun words_from :: "string \<Rightarrow> string \<Rightarrow> string list" where
  "words_from cur [] = (if cur = [] then [] else [rev cur])"
| "words_from cur (c # cs) =
     (if isspace c then (if cur = [] then words_from [] cs else rev cur # words_from [] cs)
      else words_from (c # cur) cs)"

definition matches_selector :: "string \<Rightarrow> node \<Rightarrow> bool" where
  "matches_selector selector el =
     (case selector of
        [] \<Rightarrow> False
      | c # cls \<Rightarrow>
          (if c = CHR ''.'' then cls \<in> set (words_from [] (attr_get el ''class'' []))
           else tag_name el = selector))"

definition select_one :: "string \<Rightarrow> node list \<Rightarrow> node option" where
  "select_one selector soup =
     (case filter (matches_selector selector) (soup_elements soup) of
        [] \<Rightarrow> None
      | el # rest \<Rightarrow> Some el)"

definition title_selectors :: "string list" where
  "title_selectors = [''h1'', ''title'', ''.page-title'', ''.doc-title'', ''.main-title'']"

fun title_loop :: "node list \<Rightarrow> string list \<Rightarrow> string option" where
  "title_loop soup [] = None"
| "title_loop soup (selector # selectors) =
     (case select_one selector soup of
        None \<Rightarrow> title_loop soup selectors
      | Some title_elem \<Rightarrow>
          (if get_text_strip title_elem \<noteq> [] then Some (get_text_strip title_elem)
           else title_loop soup selectors))"

text \<open>
  \<open>int(heading.name[1])\<close>: indexing raises \<open>IndexError\<close> out of range, and \<open>int\<close>
  raises \<open>ValueError\<close> on a character that is not a digit.
\<close>

definition int_name_1 :: "string \<Rightarrow> exn + int" where
  "int_name_1 nm =
     (if length nm < 2 then Inl (Exn IndexError ''string index out of range'')
      else if CHR ''0'' \<le> nm ! 1 \<and> nm ! 1 \<le> CHR ''9''
        then Inr (int (of_char (nm ! 1)) - 48)
      else Inl (Exn ValueError ''invalid literal for int() with base 10''))"

fun sections_loop :: "node list \<Rightarrow> heading list \<Rightarrow> exn + heading list" where
  "sections_loop [] sections = Inr sections"
| "sections_loop (h # hs) sections =
     (let text = get_text_strip h
      in if text \<noteq> [] then
           (case int_name_1 (tag_name h) of
              Inl e \<Rightarrow> Inl e
            | Inr level \<Rightarrow>
                sections_loop hs
                  (sections @ [\<lparr>sec_text = text, sec_level = level, sec_id = attr_get h ''id'' []\<rparr>]))
         else sections_loop hs sections)"

definition page_info_of_soup :: "node list \<Rightarrow> exn + page_details" where
  "page_info_of_soup soup =
     (let title = title_loop soup title_selectors
      in case sections_loop (find_all [''h2'', ''h3'', ''h4'', ''h5'', ''h6''] soup) [] of
           Inl e \<Rightarrow> Inl e
         | Inr sections \<Rightarrow> Inr \<lparr>info_title = title, info_sections = sections\<rparr>)"

definition extract_page_info :: "env \<Rightarrow> string \<Rightarrow> exn + page_details" where
  "extract_page_info w html =
     (case html_parser w html of
        Inl e \<Rightarrow> Inl e
      | Inr soup \<Rightarrow> page_info_of_soup soup)"

section \<open>Docset page aggregator\<close>

text \<open>
  A Page is a Python dict, kept as an association list in insertion order:
  \<open>AList.update\<close> is the assignment \<open>d[k] = v\<close>. The body of the loop over the
  entries, then the loop, then the function with its outer \<open>try\<close>.
\<close>

definition title_val :: "string option \<Rightarrow> pyval" where
  "title_val t = (case t of None \<Rightarrow> PyNone | Some s \<Rightarrow> PyStr s)"

definition process_entry ::
    "env \<Rightarrow> string \<Rightarrow> bool \<Rightarrow> client \<Rightarrow> entry \<Rightarrow> page \<times> client" where
  "process_entry w slug include_sections c e =
     (let path = get_default (entry_path e) [];
          name = get_default (entry_name e) [];
          entry_type = get_default (entry_type e) [];
          page_info = [(''name'', PyStr name), (''path'', PyStr path),
                       (''type'', PyStr entry_type), (''title'', PyNone),
                       (''sections'', PySections [])]
      in if include_sections \<and> path \<noteq> [] then
           (case get_doc_content w c slug path of
              (Inl ex, c1) \<Rightarrow>
                (AList.update ''error'' (PyStr (''Could not fetch content: '' @ str ex)) page_info, c1)
            | (Inr html_content, c1) \<Rightarrow>
                (case extract_page_info w html_content of
                   Inl ex \<Rightarrow>
                     (AList.update ''error'' (PyStr (''Could not fetch content: '' @ str ex))
                        page_info, c1)
                 | Inr details \<Rightarrow>
                     (AList.update ''sections'' (PySections (info_sections details))
                        (AList.update ''title'' (title_val (info_title details)) page_info), c1)))
         else (page_info, c))"

fun pages_loop ::
    "env \<Rightarrow> string \<Rightarrow> bool \<Rightarrow> client \<Rightarrow> entry list \<Rightarrow> page list \<Rightarrow> page list \<times> client" where
  "pages_loop w slug include_sections c [] pages = (pages, c)"
| "pages_loop w slug include_sections c (e # es) pages =
     (case process_entry w slug include_sections c e of
        (page_info, c1) \<Rightarrow> pages_loop w slug include_sections c1 es (pages @ [page_info]))"

definition list_all_docset_pages ::
    "env \<Rightarrow> client \<Rightarrow> string \<Rightarrow> bool \<Rightarrow> (exn + page list) \<times> client" where
  "list_all_docset_pages w c slug include_sections =
     (case get_doc_index w c slug of
        (Inl ex, c1) \<Rightarrow>
          (Inl (Exn Exception (''Failed to list pages for '' @ slug @ '': '' @ str ex)), c1)
      | (Inr idx, c1) \<Rightarrow>
          (case pages_loop w slug include_sections c1 (get_default (entries idx) []) [] of
             (pages, c2) \<Rightarrow> (Inr pages, c2)))"

section \<open>Vocabulary for the ranking\<close>

text \<open>
  The three tiers of the ranking in the specification's words, for the statements about
  \<open>search_doc_entries\<close>: the folded name of an entry equals the folded query, starts
  with it without being equal, or contains it elsewhere only.
\<close>

definition folded_name :: "entry \<Rightarrow> string" where
  "folded_name e = lower (get_default (entry_name e) [])"

definition exact_match :: "string \<Rightarrow> entry \<Rightarrow> bool" where
  "exact_match query e = (folded_name e = lower query)"

definition prefix_match :: "string \<Rightarrow> entry \<Rightarrow> bool" where
  "prefix_match query e =
     (prefix (lower query) (folded_name e) \<and> folded_name e \<noteq> lower query)"

definition other_match :: "string \<Rightarrow> entry \<Rightarrow> bool" where
  "other_match query e =
     (sublist (lower query) (folded_name e) \<and> \<not> prefix (lower query) (folded_name e))"

definition same_tier :: "string \<Rightarrow> entry \<Rightarrow> entry \<Rightarrow> bool" where
  "same_tier query a b =
     (exact_match query a \<and> exact_match query b
      \<or> prefix_match query a \<and> prefix_match query b
      \<or> other_match query a \<and> other_match query b)"

section \<open>A concrete documentation host\<close>

text \<open>
  A small host on which the statements below are evaluated: three documentation sets.
  The first request for the catalog is answered with status 503, later ones succeed.
\<close>

definition mk_entry :: "string \<Rightarrow> string \<Rightarrow> entry" where
  "mk_entry nm p = \<lparr>entry_name = Some nm, entry_path = Some p, entry_type = Some ''Guide''\<rparr>"

definition react_entries :: "entry list" where
  "react_entries =
     [mk_entry ''useState'' ''hooks/state'', mk_entry ''State'' ''state'',
      mk_entry ''Lifting State Up'' ''lifting'', mk_entry ''state'' ''glossary'',
      mk_entry ''Props'' ''props'', mk_entry ''Stateful'' ''stateful'',
      mk_entry ''STATE'' ''legacy'', mk_entry ''state machine'' ''machine'']"

definition big_entries :: "entry list" where
  "big_entries = map (\<lambda>n. mk_entry (''col-'' @ replicate n CHR ''x'') ''grid'') [0..<23]"

definition ok_response :: "string \<Rightarrow> response" where
  "ok_response b = \<lparr>status_code = 200, reason = ''OK'', body = b\<rparr>"

definition demo_net :: "nat \<Rightarrow> string \<Rightarrow> exn + response" where
  "demo_net n url =
     (if url = ''http://h/docs.json'' then
        (if n = 0 then Inr \<lparr>status_code = 503, reason = ''Service Unavailable'', body = []\<rparr>
         else Inr (ok_response ''[catalog]''))
      else if url = ''http://h/docs/react/index.json'' then Inr (ok_response ''{react}'')
      else if url = ''http://h/docs/grid/index.json'' then Inr (ok_response ''{grid}'')
      else if url = ''http://h/docs/svelte/index.json'' then Inr (ok_response ''{svelte}'')
      else if url = ''http://h/docs/svelte/a.html'' then
        Inr (ok_response ''<h1>Intro</h1><h2>A</h2><h3>A.1</h3><h2>B</h2>'')
      else if url = ''http://h/docs/svelte/b.html'' then Inl (Exn RequestError ''timed out'')
      else if url = ''http://h/docs/svelte/c.html'' then Inr (ok_response ''<h2 id=x>C</h2>'')
      else if url = ''http://h/docs/svelte/f.html'' then Inr (ok_response ''<![bad'')
      else Inr \<lparr>status_code = 404, reason = ''Not Found'', body = []\<rparr>)"

definition demo_catalog :: "docset list" where
  "demo_catalog =
     [\<lparr>doc_name = ''React'', doc_slug = ''react'', doc_type = ''react'', doc_version = None\<rparr>,
      \<lparr>doc_name = ''Svelte'', doc_slug = ''svelte'', doc_type = ''simple'',
       doc_version = Some ''4''\<rparr>]"

definition svelte_entries :: "entry list" where
  "svelte_entries =
     [mk_entry ''A'' ''a'', mk_entry ''B'' ''b'', mk_entry ''C'' ''c'',
      mk_entry ''D'' [], \<lparr>entry_name = Some ''E'', entry_path = None, entry_type = None\<rparr>,
      mk_entry ''F'' ''f'']"

definition demo_json_index :: "string \<Rightarrow> exn + index" where
  "demo_json_index b =
     (if b = ''{react}'' then Inr \<lparr>entries = Some react_entries, types = []\<rparr>
      else if b = ''{grid}'' then Inr \<lparr>entries = Some big_entries, types = []\<rparr>
      else if b = ''{svelte}'' then Inr \<lparr>entries = Some svelte_entries, types = []\<rparr>
      else Inl (Exn JSONDecodeError ''Expecting value''))"

definition demo_json_docs :: "string \<Rightarrow> exn + docset list" where
  "demo_json_docs b =
     (if b = ''[catalog]'' then Inr demo_catalog else Inl (Exn JSONDecodeError ''Expecting value''))"

definition outline_soup :: "node list" where
  "outline_soup =
     [Element ''h1'' [] [Text ''Intro''], Element ''h2'' [] [Text ''A''],
      Element ''h3'' [] [Text ''A.1''], Element ''h2'' [] [Text ''B'']]"

definition script_soup :: "node list" where
  "script_soup =
     [Element ''script'' [] [Text ''x()''], Element ''style'' [] [Text ''y{}''],
      Element ''p'' [] [Text ''Hello'']]"

definition demo_parser :: "string \<Rightarrow> exn + node list" where
  "demo_parser html =
     (if html = ''<h1>Intro</h1><h2>A</h2><h3>A.1</h3><h2>B</h2>'' then Inr outline_soup
      else if html = ''<h2 id=x>C</h2>'' then Inr [Element ''h2'' [(''id'', ''x'')] [Text ''C'']]
      else if html = ''<script>x()</script><style>y{}</style><p>Hello</p>'' then Inr script_soup
      else if html = ''<![bad'' then Inl (Exn ParserRejectedMarkup ''rejected'')
      else Inr [Text html])"

definition demo_env :: env where
  "demo_env =
     \<lparr>net = demo_net, json_docs = demo_json_docs, json_index = demo_json_index,
      html_parser = demo_parser,
      docs_cleaner = (\<lambda>html. Inl (Exn ImportError ''No module named scripts.clean_docs'')),
      pandoc = (\<lambda>html. Inl (Exn FileNotFoundError ''pandoc''))\<rparr>"

definition new_client :: client where
  "new_client = \<lparr>base_url = ''http://h'', docs_cache = None, requests = []\<rparr>"



section \<open>Vocabulary for the catalog\<close>

text \<open>The URL of the catalog, as \<open>get_available_docs\<close> builds it.\<close>

definition catalog_url :: "client \<Rightarrow> string" where
  "catalog_url c = base_url c @ ''/docs.json''"

section \<open>Vocabulary for the extraction pipeline\<close>

text \<open>
  The strings of a tree that lie outside every \<open>script\<close> and \<open>style\<close> element,
  in document order.
\<close>

fun visible_strings :: "node \<Rightarrow> string list" where
  "visible_strings (Text t) = [t]"
| "visible_strings (Element nm attrs cs) =
     (if nm = ''script'' \<or> nm = ''style'' then [] else concat (map visible_strings cs))"

text \<open>
  The fragments that the naive strategy retains from a text: the lines, stripped, split
  at two spaces, each piece stripped, the empty pieces dropped. A retained fragment is
  clean: not empty, no whitespace at either end, no two adjacent spaces, no line boundary.
\<close>

definition text_chunks :: "string \<Rightarrow> string list" where
  "text_chunks text =
     filter (\<lambda>chunk. chunk \<noteq> [])
       (concat (map (\<lambda>line. map strip (split_two_spaces line)) (map strip (splitlines text))))"

definition clean_chunk :: "string \<Rightarrow> bool" where
  "clean_chunk c \<longleftrightarrow>
     c \<noteq> [] \<and> \<not> isspace (hd c) \<and> \<not> isspace (last c) \<and> \<not> sublist ''  '' c
     \<and> (\<forall>x \<in> set c. \<not> is_linebreak x)"

text \<open>
  A strategy passes when the \<open>except\<close> clause of its \<open>try\<close> swallows what it
  raised, or when its output is empty (for the cleaner: blank).
\<close>

definition cleaner_passes :: "env \<Rightarrow> string \<Rightarrow> bool" where
  "cleaner_passes w html =
     (case docs_cleaner w html of
        Inl e \<Rightarrow> exn_kind e = ImportError
      | Inr markdown \<Rightarrow> markdown = [] \<or> strip markdown = [])"

definition pandoc_passes :: "env \<Rightarrow> string \<Rightarrow> bool" where
  "pandoc_passes w html =
     (case pandoc w html of
        Inl e \<Rightarrow> exn_kind e \<in> set [CalledProcessError, FileNotFoundError, TimeoutExpired]
      | Inr stdout \<Rightarrow> stdout = [])"

text \<open>
  Three variants of the concrete host: a cleaner that is installed and fails at run time,
  a pandoc executable that may not be executed, and a pandoc that converts.
\<close>

definition crashing_cleaner_env :: env where
  "crashing_cleaner_env =
     demo_env\<lparr>docs_cleaner := (\<lambda>html. Inl (Exn RuntimeError ''pandoc failed''))\<rparr>"

definition unrunnable_pandoc_env :: env where
  "unrunnable_pandoc_env =
     demo_env\<lparr>pandoc := (\<lambda>html. Inl (Exn PermissionError ''Permission denied''))\<rparr>"

definition pandoc_env :: env where
  "pandoc_env = demo_env\<lparr>pandoc := (\<lambda>html. Inr ''## C'')\<rparr>"

section \<open>Vocabulary for the outline\<close>

text \<open>
  The level of a heading element, the elements that count as sections (a heading of
  level 2 to 6 whose stripped text is not empty), and the section recorded for one.
\<close>

definition heading_level :: "node \<Rightarrow> int option" where
  "heading_level el =
     (if tag_name el = ''h1'' then Some 1 else if tag_name el = ''h2'' then Some 2
      else if tag_name el = ''h3'' then Some 3 else if tag_name el = ''h4'' then Some 4
      else if tag_name el = ''h5'' then Some 5 else if tag_name el = ''h6'' then Some 6
      else None)"

definition is_section :: "node \<Rightarrow> bool" where
  "is_section el =
     (case heading_level el of
        None \<Rightarrow> False
      | Some l \<Rightarrow> 2 \<le> l \<and> l \<le> 6 \<and> get_text_strip el \<noteq> [])"

definition section_of :: "node \<Rightarrow> heading" where
  "section_of el =
     \<lparr>sec_text = get_text_strip el,
      sec_level = (case heading_level el of None \<Rightarrow> 0 | Some l \<Rightarrow> l),
      sec_id = attr_get el ''id'' []\<rparr>"

section \<open>Vocabulary for the aggregator\<close>

text \<open>
  The path of an entry as the loop reads it, whether it is non-empty, the URLs of the
  index and of a page, and the instance after further requests.
\<close>

definition path_of :: "entry \<Rightarrow> string" where
  "path_of e = get_default (entry_path e) []"

definition has_path :: "entry \<Rightarrow> bool" where
  "has_path e = (path_of e \<noteq> [])"

definition index_url :: "client \<Rightarrow> string \<Rightarrow> string" where
  "index_url c slug = base_url c @ ''/docs/'' @ slug @ ''/index.json''"

definition content_url :: "client \<Rightarrow> string \<Rightarrow> string \<Rightarrow> string" where
  "content_url c slug path = base_url c @ ''/docs/'' @ slug @ ''/'' @ path @ ''.html''"

definition after_requests :: "client \<Rightarrow> string list \<Rightarrow> client" where
  "after_requests c urls = c\<lparr>requests := requests c @ urls\<rparr>"

text \<open>
  The content requests that a listing of the given entries sends, in order: one for each
  entry with a non-empty path when sections are included, none otherwise.
\<close>

definition fetched_urls :: "client \<Rightarrow> string \<Rightarrow> bool \<Rightarrow> entry list \<Rightarrow> string list" where
  "fetched_urls c slug include_sections es =
     (if include_sections then map (\<lambda>e. content_url c slug (path_of e)) (filter has_path es)
      else [])"

text \<open>
  Fetching a page and deriving its page info, as one fallible step: the outcome of the
  inner \<open>try\<close> of the loop.
\<close>

definition fetch_details :: "env \<Rightarrow> client \<Rightarrow> string \<Rightarrow> string \<Rightarrow> exn + page_details" where
  "fetch_details w c slug path =
     (case fst (get_doc_content w c slug path) of
        Inl ex \<Rightarrow> Inl ex
      | Inr html_content \<Rightarrow> extract_page_info w html_content)"

text \<open>
  The three forms of a Page: the minimal one that the loop starts from, the one of an
  entry whose content could not be fetched or analysed, and the one with the extracted
  title and sections. \<open>page_for\<close> is the Page of an entry on a given instance.
\<close>

definition page_keys :: "string list" where
  "page_keys = [''name'', ''path'', ''type'', ''title'', ''sections'']"

definition basic_page :: "entry \<Rightarrow> page" where
  "basic_page e =
     [(''name'', PyStr (get_default (entry_name e) [])), (''path'', PyStr (path_of e)),
      (''type'', PyStr (get_default (entry_type e) [])), (''title'', PyNone),
      (''sections'', PySections [])]"

definition failed_page :: "entry \<Rightarrow> exn \<Rightarrow> page" where
  "failed_page e ex = basic_page e @ [(''error'', PyStr (''Could not fetch content: '' @ str ex))]"

definition detailed_page :: "entry \<Rightarrow> page_details \<Rightarrow> page" where
  "detailed_page e details =
     [(''name'', PyStr (get_default (entry_name e) [])), (''path'', PyStr (path_of e)),
      (''type'', PyStr (get_default (entry_type e) [])),
      (''title'', title_val (info_title details)),
      (''sections'', PySections (info_sections details))]"

definition page_for :: "env \<Rightarrow> client \<Rightarrow> string \<Rightarrow> bool \<Rightarrow> entry \<Rightarrow> page" where
  "page_for w c slug include_sections e =
     (if include_sections \<and> has_path e then
        (case fetch_details w c slug (path_of e) of
           Inl ex \<Rightarrow> failed_page e ex
         | Inr details \<Rightarrow> detailed_page e details)
      else basic_page e)"

text \<open>The listing of the documentation set \<open>svelte\<close> of the concrete host.\<close>

definition svelte_pages :: "page list" where
  "svelte_pages =
     [[(''name'', PyStr ''A''), (''path'', PyStr ''a''), (''type'', PyStr ''Guide''),
       (''title'', PyStr ''Intro''),
       (''sections'', PySections
          [\<lparr>sec_text = ''A'', sec_level = 2, sec_id = []\<rparr>,
           \<lparr>sec_text = ''A.1'', sec_level = 3, sec_id = []\<rparr>,
           \<lparr>sec_text = ''B'', sec_level = 2, sec_id = []\<rparr>])],
      [(''name'', PyStr ''B''), (''path'', PyStr ''b''), (''type'', PyStr ''Guide''),
       (''title'', PyNone), (''sections'', PySections []),
       (''error'', PyStr ''Could not fetch content: timed out'')],
      [(''name'', PyStr ''C''), (''path'', PyStr ''c''), (''type'', PyStr ''Guide''),
       (''title'', PyNone),
       (''sections'', PySections [\<lparr>sec_text = ''C'', sec_level = 2, sec_id = ''x''\<rparr>])],
      [(''name'', PyStr ''D''), (''path'', PyStr []), (''type'', PyStr ''Guide''),
       (''title'', PyNone), (''sections'', PySections [])],
      [(''name'', PyStr ''E''), (''path'', PyStr []), (''type'', PyStr []),
       (''title'', PyNone), (''sections'', PySections [])],
      [(''name'', PyStr ''F''), (''path'', PyStr ''f''), (''type'', PyStr ''Guide''),
       (''title'', PyNone), (''sections'', PySections []),
       (''error'', PyStr ''Could not fetch content: rejected'')]]"

section \<open>Properties of entry search\<close>

lemma search_unfold:
  "get_doc_index w c slug = (Inr idx, c1) \<Longrightarrow>
   search_doc_entries w c slug query = (Inr (rank_matches query (get_default (entries idx) [])), c1)"
  by (simp add: search_doc_entries_def)

lemma rank_matches_sorted:
  "sorted (map (sort_key_entry (lower query)) (rank_matches query es))"
  by (simp add: rank_matches_def Let_def take_map [symmetric] sorted_wrt_take)

lemma rank_matches_set:
  "e \<in> set (rank_matches query es) \<Longrightarrow> e \<in> set es \<and> is_match (lower query) e"
  by (auto simp: rank_matches_def Let_def dest!: in_set_takeD)

lemma sorted_map_nth:
  "sorted (map f xs) \<Longrightarrow> i \<le> j \<Longrightarrow> j < length xs \<Longrightarrow> f (xs ! i) \<le> f (xs ! j)"
  using sorted_nth_mono [of "map f xs" i j] by simp

lemma sort_key_entry_tiers:
  "sort_key_entry (lower query) e =
     (if exact_match query e then 0 else if prefix_match query e then 1 else 2, folded_name e)"
  by (simp add: sort_key_entry_def Let_def exact_match_def prefix_match_def folded_name_def)

lemma match_cases:
  "is_match (lower query) e \<Longrightarrow> exact_match query e \<or> prefix_match query e \<or> other_match query e"
  by (auto simp: is_match_def exact_match_def prefix_match_def other_match_def folded_name_def)

lemma tiers_exclusive:
  "\<not> (exact_match query e \<and> prefix_match query e)"
  "\<not> (exact_match query e \<and> other_match query e)"
  "\<not> (prefix_match query e \<and> other_match query e)"
  by (auto simp: exact_match_def prefix_match_def other_match_def)

lemma rank_matches_length:
  "length (rank_matches query es) = min 20 (length (filter (is_match (lower query)) es))"
  by (simp add: rank_matches_def Let_def min.commute)

lemma ranked_order:
  assumes "i < j" "j < length (rank_matches query es)"
  shows "sort_key_entry (lower query) (rank_matches query es ! i)
          \<le> sort_key_entry (lower query) (rank_matches query es ! j)"
  using sorted_map_nth [OF rank_matches_sorted, of i j query es] assms by simp

lemma ranked_tier_order:
  assumes "i < length (rank_matches query es)" "j < length (rank_matches query es)"
    and "exact_match query (rank_matches query es ! i) \<and>
           (prefix_match query (rank_matches query es ! j) \<or> other_match query (rank_matches query es ! j))
         \<or> prefix_match query (rank_matches query es ! i) \<and> other_match query (rank_matches query es ! j)"
  shows "i < j"
proof (rule ccontr)
  let ?rs = "rank_matches query es"
  assume "\<not> i < j"
  then have "j \<le> i" by simp
  then have "sort_key_entry (lower query) (?rs ! j) \<le> sort_key_entry (lower query) (?rs ! i)"
    using sorted_map_nth [OF rank_matches_sorted, of j i query es] assms(1) by simp
  with assms(3) show False
    using tiers_exclusive [of query "?rs ! j"] tiers_exclusive [of query "?rs ! i"]
    by (auto simp: sort_key_entry_tiers less_eq_prod_def split: if_splits)
qed

lemma ranked_within_tier:
  assumes "i < j" "j < length (rank_matches query es)"
    and "same_tier query (rank_matches query es ! i) (rank_matches query es ! j)"
  shows "folded_name (rank_matches query es ! i) \<le> folded_name (rank_matches query es ! j)"
  using ranked_order [OF assms(1,2)] assms(3)
    tiers_exclusive [of query "rank_matches query es ! j"]
    tiers_exclusive [of query "rank_matches query es ! i"]
  by (auto simp: sort_key_entry_tiers same_tier_def less_eq_prod_def split: if_splits)

text \<open>
  Claim C1. For a fixed Index and query, \<open>search_doc_entries\<close> returns the same
  ordered sequence whatever the engine instance and the rest of the host: the sequence
  is a function of the Index and the query. Every entry of it matches in exactly one of
  the three ways; an entry whose folded name equals the folded query stands before every
  entry whose folded name only starts with it or only contains it, an entry whose folded
  name starts with the query stands before every entry whose folded name contains it
  elsewhere only; and two entries of one tier stand in ascending order of their folded
  names.
\<close>

theorem search_ranking_deterministic:
  assumes "get_doc_index w c slug = (Inr idx, c1)"
  shows "\<exists>rs. search_doc_entries w c slug query = (Inr rs, c1)
    \<and> (\<forall>w' c' slug' c1'. get_doc_index w' c' slug' = (Inr idx, c1')
          \<longrightarrow> fst (search_doc_entries w' c' slug' query) = Inr rs)
    \<and> (\<forall>e \<in> set rs. exact_match query e \<or> prefix_match query e \<or> other_match query e)
    \<and> (\<forall>i j. i < length rs \<and> j < length rs \<and> exact_match query (rs ! i)
          \<and> (prefix_match query (rs ! j) \<or> other_match query (rs ! j)) \<longrightarrow> i < j)
    \<and> (\<forall>i j. i < length rs \<and> j < length rs \<and> prefix_match query (rs ! i)
          \<and> other_match query (rs ! j) \<longrightarrow> i < j)
    \<and> (\<forall>i j. i < j \<and> j < length rs \<and> same_tier query (rs ! i) (rs ! j)
          \<longrightarrow> folded_name (rs ! i) \<le> folded_name (rs ! j))"
proof -
  let ?rs = "rank_matches query (get_default (entries idx) [])"
  have 1: "search_doc_entries w c slug query = (Inr ?rs, c1)"
    using assms by (rule search_unfold)
  have 2: "\<forall>w' c' slug' c1'. get_doc_index w' c' slug' = (Inr idx, c1')
          \<longrightarrow> fst (search_doc_entries w' c' slug' query) = Inr ?rs"
    by (simp add: search_unfold)
  have 3: "\<forall>e \<in> set ?rs. exact_match query e \<or> prefix_match query e \<or> other_match query e"
    using rank_matches_set match_cases by blast
  have 4: "\<forall>i j. i < length ?rs \<and> j < length ?rs \<and> exact_match query (?rs ! i)
          \<and> (prefix_match query (?rs ! j) \<or> other_match query (?rs ! j)) \<longrightarrow> i < j"
    using ranked_tier_order by blast
  have 5: "\<forall>i j. i < length ?rs \<and> j < length ?rs \<and> prefix_match query (?rs ! i)
          \<and> other_match query (?rs ! j) \<longrightarrow> i < j"
    using ranked_tier_order by blast
  have 6: "\<forall>i j. i < j \<and> j < length ?rs \<and> same_tier query (?rs ! i) (?rs ! j)
          \<longrightarrow> folded_name (?rs ! i) \<le> folded_name (?rs ! j)"
    using ranked_within_tier by blast
  from 1 2 3 4 5 6 show ?thesis by blast
qed


theorem search_ranking_deterministic_witness:
  "get_doc_index demo_env new_client ''react''
     = (Inr \<lparr>entries = Some react_entries, types = []\<rparr>,
        new_client\<lparr>requests := [''http://h/docs/react/index.json'']\<rparr>)
   \<and> search_doc_entries demo_env new_client ''react'' ''State''
     = (Inr [mk_entry ''State'' ''state'', mk_entry ''state'' ''glossary'',
             mk_entry ''STATE'' ''legacy'', mk_entry ''state machine'' ''machine'',
             mk_entry ''Stateful'' ''stateful'', mk_entry ''Lifting State Up'' ''lifting'',
             mk_entry ''useState'' ''hooks/state''],
        new_client\<lparr>requests := [''http://h/docs/react/index.json'']\<rparr>)"
proof -
  have h: "get_doc_index demo_env new_client ''react''
     = (Inr \<lparr>entries = Some react_entries, types = []\<rparr>,
        new_client\<lparr>requests := [''http://h/docs/react/index.json'']\<rparr>)"
    by (simp add: get_doc_index_def http_get_def demo_env_def new_client_def demo_net_def
        raise_for_status_def ok_response_def demo_json_index_def)
  from search_ranking_deterministic [OF h, of "''State''"]
  obtain rs where rs: "search_doc_entries demo_env new_client ''react'' ''State''
      = (Inr rs, new_client\<lparr>requests := [''http://h/docs/react/index.json'']\<rparr>)"
    by blast
  have "rank_matches ''State'' react_entries
     = [mk_entry ''State'' ''state'', mk_entry ''state'' ''glossary'',
             mk_entry ''STATE'' ''legacy'', mk_entry ''state machine'' ''machine'',
             mk_entry ''Stateful'' ''stateful'', mk_entry ''Lifting State Up'' ''lifting'',
             mk_entry ''useState'' ''hooks/state'']"
    by code_simp
  with rs h show ?thesis
    by (simp add: search_doc_entries_def get_default_def)
qed

text \<open>
  Claim C6. The sequence returned by \<open>search_doc_entries\<close> has the length of the
  matching entries, cut at 20: it never has more than 20 entries, however many match.
\<close>

theorem search_at_most_20:
  assumes "get_doc_index w c slug = (Inr idx, c1)"
  shows "\<exists>rs. search_doc_entries w c slug query = (Inr rs, c1)
    \<and> length rs = min 20 (length (filter (is_match (lower query)) (get_default (entries idx) [])))
    \<and> length rs \<le> 20"
  using search_unfold [OF assms, of query] by (simp add: rank_matches_length)

theorem search_at_most_20_witness:
  "get_doc_index demo_env new_client ''grid''
     = (Inr \<lparr>entries = Some big_entries, types = []\<rparr>,
        new_client\<lparr>requests := [''http://h/docs/grid/index.json'']\<rparr>)
   \<and> length (filter (is_match (lower ''COL'')) big_entries) = 23
   \<and> (\<exists>rs. search_doc_entries demo_env new_client ''grid'' ''COL''
         = (Inr rs, new_client\<lparr>requests := [''http://h/docs/grid/index.json'']\<rparr>)
       \<and> length rs = 20)"
proof -
  have h: "get_doc_index demo_env new_client ''grid''
     = (Inr \<lparr>entries = Some big_entries, types = []\<rparr>,
        new_client\<lparr>requests := [''http://h/docs/grid/index.json'']\<rparr>)"
    by (simp add: get_doc_index_def http_get_def demo_env_def new_client_def demo_net_def
        raise_for_status_def ok_response_def demo_json_index_def)
  have n: "length (filter (is_match (lower ''COL'')) big_entries) = 23"
    by code_simp
  from search_at_most_20 [OF h, of "''COL''"] n h show ?thesis
    by (auto simp: get_default_def)
qed

text \<open>
  Claim C5. With the empty query the filter of \<open>search_doc_entries\<close> keeps every
  entry of the Index, and the result is the first 20 entries of the ranking of the whole
  Index: it is a result, not an error, and it is empty only when the Index is.
\<close>

theorem search_empty_query_keeps_all:
  assumes "get_doc_index w c slug = (Inr idx, c1)"
  shows "filter (is_match (lower [])) (get_default (entries idx) []) = get_default (entries idx) []
    \<and> search_doc_entries w c slug []
        = (Inr (take 20 (sort_key (sort_key_entry []) (get_default (entries idx) []))), c1)
    \<and> length (take 20 (sort_key (sort_key_entry []) (get_default (entries idx) [])))
        = min 20 (length (get_default (entries idx) []))"
proof -
  have all: "filter (is_match (lower [])) es = es" for es
    by (simp add: is_match_def lower_def)
  show ?thesis
    using search_unfold [OF assms, of "[]"] all
    by (simp add: rank_matches_def Let_def lower_def min.commute)
qed

theorem search_empty_query_keeps_all_witness:
  "get_doc_index demo_env new_client ''react''
     = (Inr \<lparr>entries = Some react_entries, types = []\<rparr>,
        new_client\<lparr>requests := [''http://h/docs/react/index.json'']\<rparr>)
   \<and> search_doc_entries demo_env new_client ''react'' []
     = (Inr [mk_entry ''Lifting State Up'' ''lifting'', mk_entry ''Props'' ''props'',
             mk_entry ''State'' ''state'', mk_entry ''state'' ''glossary'',
             mk_entry ''STATE'' ''legacy'', mk_entry ''state machine'' ''machine'',
             mk_entry ''Stateful'' ''stateful'', mk_entry ''useState'' ''hooks/state''],
        new_client\<lparr>requests := [''http://h/docs/react/index.json'']\<rparr>)"
proof -
  have h: "get_doc_index demo_env new_client ''react''
     = (Inr \<lparr>entries = Some react_entries, types = []\<rparr>,
        new_client\<lparr>requests := [''http://h/docs/react/index.json'']\<rparr>)"
    by (simp add: get_doc_index_def http_get_def demo_env_def new_client_def demo_net_def
        raise_for_status_def ok_response_def demo_json_index_def)
  have "take 20 (sort_key (sort_key_entry []) react_entries)
     = [mk_entry ''Lifting State Up'' ''lifting'', mk_entry ''Props'' ''props'',
             mk_entry ''State'' ''state'', mk_entry ''state'' ''glossary'',
             mk_entry ''STATE'' ''legacy'', mk_entry ''state machine'' ''machine'',
             mk_entry ''Stateful'' ''stateful'', mk_entry ''useState'' ''hooks/state'']"
    by code_simp
  with search_empty_query_keeps_all [OF h] h show ?thesis
    by (simp add: get_default_def)
qed

lemma rank_matches_stable:
  "prefix (filter (\<lambda>e. sort_key_entry (lower query) e = k) (rank_matches query es))
          (filter (\<lambda>e. sort_key_entry (lower query) e = k) (filter (is_match (lower query)) es))"
proof -
  let ?f = "sort_key_entry (lower query)"
  let ?ms = "filter (is_match (lower query)) es"
  have "prefix (take 20 (sort_key ?f ?ms)) (sort_key ?f ?ms)"
    by (rule take_is_prefix)
  then have "prefix (filter (\<lambda>e. ?f e = k) (take 20 (sort_key ?f ?ms)))
                    (filter (\<lambda>e. ?f e = k) (sort_key ?f ?ms))"
    by (rule filter_mono_prefix)
  then show ?thesis
    by (simp only: rank_matches_def Let_def sort_key_stable)
qed

lemma stable_sort_unique:
  fixes f :: "'a \<Rightarrow> 'k::linorder"
  assumes "mset ys = mset xs" and "sorted (map f ys)"
    and "\<And>k. filter (\<lambda>x. f x = k) ys = filter (\<lambda>x. f x = k) xs"
  shows "ys = sort_key f xs"
proof -
  have "sort_key f xs = ys"
  proof (rule properties_for_sort_key)
    show "mset ys = mset xs" by fact
    show "sorted (map f ys)" by fact
    fix k assume "k \<in> set ys"
    have "filter (\<lambda>x. f x = f k) ys = filter (\<lambda>x. f x = f k) xs" by (rule assms(3))
    then show "filter (\<lambda>x. f k = f x) ys = filter (\<lambda>x. f k = f x) xs"
      by (simp add: eq_commute)
  qed
  then show ?thesis by simp
qed

text \<open>
  Claim C10. The sort of \<open>search_doc_entries\<close> is stable: for every sort key, the
  entries of the output with that key are an initial part of the matching entries of the
  Index with that key, in the order of the Index. Hence the output is determined by the
  Index and the query: the first 20 entries of any list that holds the matching entries,
  is sorted by key and keeps entries of equal key in the order of the Index, are the
  output.
\<close>

theorem search_sort_stable:
  assumes "get_doc_index w c slug = (Inr idx, c1)"
  shows "\<exists>rs. search_doc_entries w c slug query = (Inr rs, c1)
    \<and> (\<forall>k. prefix (filter (\<lambda>e. sort_key_entry (lower query) e = k) rs)
              (filter (\<lambda>e. sort_key_entry (lower query) e = k)
                 (filter (is_match (lower query)) (get_default (entries idx) []))))
    \<and> (\<forall>ys. mset ys = mset (filter (is_match (lower query)) (get_default (entries idx) []))
          \<and> sorted (map (sort_key_entry (lower query)) ys)
          \<and> (\<forall>k. filter (\<lambda>e. sort_key_entry (lower query) e = k) ys
                 = filter (\<lambda>e. sort_key_entry (lower query) e = k)
                     (filter (is_match (lower query)) (get_default (entries idx) [])))
          \<longrightarrow> take 20 ys = rs)"
proof -
  let ?es = "get_default (entries idx) []"
  let ?f = "sort_key_entry (lower query)"
  let ?ms = "filter (is_match (lower query)) ?es"
  have 1: "search_doc_entries w c slug query = (Inr (rank_matches query ?es), c1)"
    using assms by (rule search_unfold)
  have 2: "\<forall>k. prefix (filter (\<lambda>e. ?f e = k) (rank_matches query ?es)) (filter (\<lambda>e. ?f e = k) ?ms)"
    using rank_matches_stable by blast
  have 3: "take 20 ys = rank_matches query ?es"
    if "mset ys = mset ?ms" "sorted (map ?f ys)"
       "\<forall>k. filter (\<lambda>e. ?f e = k) ys = filter (\<lambda>e. ?f e = k) ?ms" for ys
  proof -
    have "ys = sort_key ?f ?ms"
      using that by (intro stable_sort_unique) auto
    then show ?thesis by (simp add: rank_matches_def Let_def)
  qed
  from 1 2 3 show ?thesis by blast
qed

theorem search_sort_stable_witness:
  "get_doc_index demo_env new_client ''react''
     = (Inr \<lparr>entries = Some react_entries, types = []\<rparr>,
        new_client\<lparr>requests := [''http://h/docs/react/index.json'']\<rparr>)
   \<and> filter (\<lambda>e. sort_key_entry (lower ''State'') e = (0, ''state''))
        (filter (is_match (lower ''State'')) react_entries)
     = [mk_entry ''State'' ''state'', mk_entry ''state'' ''glossary'', mk_entry ''STATE'' ''legacy'']
   \<and> (\<exists>rs. search_doc_entries demo_env new_client ''react'' ''State''
         = (Inr rs, new_client\<lparr>requests := [''http://h/docs/react/index.json'']\<rparr>)
       \<and> prefix (filter (\<lambda>e. sort_key_entry (lower ''State'') e = (0, ''state'')) rs)
           [mk_entry ''State'' ''state'', mk_entry ''state'' ''glossary'',
            mk_entry ''STATE'' ''legacy''])"
proof -
  have h: "get_doc_index demo_env new_client ''react''
     = (Inr \<lparr>entries = Some react_entries, types = []\<rparr>,
        new_client\<lparr>requests := [''http://h/docs/react/index.json'']\<rparr>)"
    by (simp add: get_doc_index_def http_get_def demo_env_def new_client_def demo_net_def
        raise_for_status_def ok_response_def demo_json_index_def)
  have f: "filter (\<lambda>e. sort_key_entry (lower ''State'') e = (0, ''state''))
        (filter (is_match (lower ''State'')) react_entries)
     = [mk_entry ''State'' ''state'', mk_entry ''state'' ''glossary'', mk_entry ''STATE'' ''legacy'']"
    by code_simp
  from search_sort_stable [OF h, of "''State''"]
  obtain rs where "search_doc_entries demo_env new_client ''react'' ''State''
         = (Inr rs, new_client\<lparr>requests := [''http://h/docs/react/index.json'']\<rparr>)"
    and "prefix (filter (\<lambda>e. sort_key_entry (lower ''State'') e = (0, ''state'')) rs)
              (filter (\<lambda>e. sort_key_entry (lower ''State'') e = (0, ''state''))
                 (filter (is_match (lower ''State'')) react_entries))"
    by (auto simp: get_default_def)
  with h f show ?thesis by auto
qed

section \<open>Properties of the memoized catalog\<close>

lemma get_available_docs_cached:
  "docs_cache c = Some docs \<Longrightarrow> get_available_docs w c = (Inr docs, c)"
  by (simp add: get_available_docs_def)

lemma get_available_docs_requests:
  "docs_cache c = None \<Longrightarrow>
   requests (snd (get_available_docs w c)) = requests c @ [catalog_url c]"
  by (simp add: get_available_docs_def http_get_def catalog_url_def
      split: sum.splits prod.splits)

lemma get_available_docs_base_url:
  "base_url (snd (get_available_docs w c)) = base_url c"
  by (simp add: get_available_docs_def http_get_def split: sum.splits prod.splits option.splits)

lemma get_available_docs_success:
  assumes "docs_cache c = None" "get_available_docs w c = (Inr docs, c1)"
  shows "c1 = c\<lparr>requests := requests c @ [catalog_url c], docs_cache := Some docs\<rparr>
    \<and> (\<exists>r. net w (length (requests c)) (catalog_url c) = Inr r
          \<and> 200 \<le> status_code r \<and> status_code r < 300 \<and> json_docs w (body r) = Inr docs)"
  using assms
  by (auto simp: get_available_docs_def http_get_def catalog_url_def raise_for_status_def
      split: sum.splits prod.splits if_splits)

lemma get_available_docs_failure:
  assumes "docs_cache c = None" "get_available_docs w c = (Inl e, c1)"
  shows "c1 = c\<lparr>requests := requests c @ [catalog_url c]\<rparr>
    \<and> (net w (length (requests c)) (catalog_url c) = Inl e
       \<or> (\<exists>r. net w (length (requests c)) (catalog_url c) = Inr r
            \<and> \<not> (200 \<le> status_code r \<and> status_code r < 300) \<and> e = Exn HTTPStatusError (reason r))
       \<or> (\<exists>r. net w (length (requests c)) (catalog_url c) = Inr r
            \<and> 200 \<le> status_code r \<and> status_code r < 300 \<and> json_docs w (body r) = Inl e))"
  using assms
  by (auto simp: get_available_docs_def http_get_def catalog_url_def raise_for_status_def
      split: sum.splits prod.splits if_splits)

text \<open>
  Claim C4. On an engine instance whose cache is unset, a call of
  \<open>get_available_docs\<close> makes one request for the catalog. When the call succeeds,
  the cache holds exactly the value returned, which is the decoded body of a response with
  a success status (never a partial catalog), and every later call, on whatever network,
  returns that value and leaves the instance unchanged, request log included: two calls
  in sequence make one request. When the call fails, the request failed in transport, or
  had a non-success status, or its body could not be decoded; the cache stays unset, and
  the next call sends the request again.
\<close>

theorem catalog_memoized_once:
  assumes "docs_cache c = None"
  shows "(\<forall>docs c1. get_available_docs w c = (Inr docs, c1) \<longrightarrow>
            docs_cache c1 = Some docs
          \<and> requests c1 = requests c @ [catalog_url c]
          \<and> (\<exists>r. net w (length (requests c)) (catalog_url c) = Inr r
                \<and> 200 \<le> status_code r \<and> status_code r < 300 \<and> json_docs w (body r) = Inr docs)
          \<and> (\<forall>w'. get_available_docs w' c1 = (Inr docs, c1))
          \<and> (\<forall>w' c'. docs_cache c' = Some docs \<longrightarrow> get_available_docs w' c' = (Inr docs, c')))
    \<and> (\<forall>e c1. get_available_docs w c = (Inl e, c1) \<longrightarrow>
            docs_cache c1 = None
          \<and> requests c1 = requests c @ [catalog_url c]
          \<and> (net w (length (requests c)) (catalog_url c) = Inl e
             \<or> (\<exists>r. net w (length (requests c)) (catalog_url c) = Inr r
                  \<and> \<not> (200 \<le> status_code r \<and> status_code r < 300)
                  \<and> e = Exn HTTPStatusError (reason r))
             \<or> (\<exists>r. net w (length (requests c)) (catalog_url c) = Inr r
                  \<and> 200 \<le> status_code r \<and> status_code r < 300
                  \<and> json_docs w (body r) = Inl e))
          \<and> (\<forall>w'. requests (snd (get_available_docs w' c1)) = requests c1 @ [catalog_url c]))"
proof (intro conjI allI impI)
  fix docs c1 assume ok: "get_available_docs w c = (Inr docs, c1)"
  note s = get_available_docs_success [OF assms ok]
  from s show "docs_cache c1 = Some docs" by simp
  from s show "requests c1 = requests c @ [catalog_url c]" by simp
  from s show "\<exists>r. net w (length (requests c)) (catalog_url c) = Inr r
                \<and> 200 \<le> status_code r \<and> status_code r < 300 \<and> json_docs w (body r) = Inr docs"
    by simp
  from s show "get_available_docs w' c1 = (Inr docs, c1)" for w'
    by (intro get_available_docs_cached) simp
  show "get_available_docs w' c' = (Inr docs, c')" if "docs_cache c' = Some docs" for w' c'
    using that by (rule get_available_docs_cached)
next
  fix e c1 assume bad: "get_available_docs w c = (Inl e, c1)"
  note f = get_available_docs_failure [OF assms bad]
  from f assms show none: "docs_cache c1 = None" by simp
  from f show "requests c1 = requests c @ [catalog_url c]" by simp
  from f show "net w (length (requests c)) (catalog_url c) = Inl e
             \<or> (\<exists>r. net w (length (requests c)) (catalog_url c) = Inr r
                  \<and> \<not> (200 \<le> status_code r \<and> status_code r < 300)
                  \<and> e = Exn HTTPStatusError (reason r))
             \<or> (\<exists>r. net w (length (requests c)) (catalog_url c) = Inr r
                  \<and> 200 \<le> status_code r \<and> status_code r < 300
                  \<and> json_docs w (body r) = Inl e)"
    by simp
  have "catalog_url c1 = catalog_url c" using f by (simp add: catalog_url_def)
  then show "requests (snd (get_available_docs w' c1)) = requests c1 @ [catalog_url c]" for w'
    using get_available_docs_requests [OF none, of w'] by simp
qed

theorem catalog_memoized_once_witness:
  "docs_cache new_client = None
   \<and> get_available_docs demo_env new_client
       = (Inl (Exn HTTPStatusError ''Service Unavailable''),
          new_client\<lparr>requests := [''http://h/docs.json'']\<rparr>)
   \<and> get_available_docs demo_env (new_client\<lparr>requests := [''http://h/docs.json'']\<rparr>)
       = (Inr demo_catalog,
          new_client\<lparr>requests := [''http://h/docs.json'', ''http://h/docs.json''],
                      docs_cache := Some demo_catalog\<rparr>)
   \<and> get_available_docs demo_env
        (new_client\<lparr>requests := [''http://h/docs.json'', ''http://h/docs.json''],
                      docs_cache := Some demo_catalog\<rparr>)
       = (Inr demo_catalog,
          new_client\<lparr>requests := [''http://h/docs.json'', ''http://h/docs.json''],
                      docs_cache := Some demo_catalog\<rparr>)"
proof -
  let ?c1 = "new_client\<lparr>requests := [''http://h/docs.json'']\<rparr>"
  let ?c2 = "new_client\<lparr>requests := [''http://h/docs.json'', ''http://h/docs.json''],
                      docs_cache := Some demo_catalog\<rparr>"
  have h0: "docs_cache new_client = None" by (simp add: new_client_def)
  have h1: "docs_cache ?c1 = None" by (simp add: new_client_def)
  have a: "get_available_docs demo_env new_client
       = (Inl (Exn HTTPStatusError ''Service Unavailable''), ?c1)"
    by (simp add: get_available_docs_def http_get_def demo_env_def new_client_def demo_net_def
        raise_for_status_def)
  have b: "get_available_docs demo_env ?c1 = (Inr demo_catalog, ?c2)"
    by (simp add: get_available_docs_def http_get_def demo_env_def new_client_def demo_net_def
        raise_for_status_def ok_response_def demo_json_docs_def)
  from catalog_memoized_once [OF h1, of demo_env] b
  have "get_available_docs demo_env ?c2 = (Inr demo_catalog, ?c2)" by blast
  with h0 a b show ?thesis by simp
qed

section \<open>Properties of the extraction pipeline\<close>

lemma all_strings_decompose:
  "concat (map all_strings (decompose [''script'', ''style''] n)) = visible_strings n"
proof (induction n)
  case (Text t)
  show ?case by simp
next
  case (Element nm attrs cs)
  have "concat (map all_strings (concat (map (decompose [''script'', ''style'']) cs)))
        = concat (map visible_strings cs)"
    using Element by (induction cs) auto
  then show ?case by simp
qed

lemma get_text_decompose_all:
  "get_text (decompose_all [''script'', ''style''] soup) = concat (concat (map visible_strings soup))"
proof -
  have "concat (map all_strings (concat (map (decompose [''script'', ''style'']) soup)))
        = concat (map visible_strings soup)"
    by (induction soup) (simp_all add: all_strings_decompose)
  then show ?thesis by (simp add: get_text_def decompose_all_def)
qed

lemma naive_text_chunks:
  "naive_text soup = join '' '' (text_chunks (concat (concat (map visible_strings soup))))"
  by (simp add: naive_text_def Let_def get_text_decompose_all text_chunks_def)

subsection \<open>Lines and pieces\<close>

lemma splitlines_from_no_linebreak:
  "\<forall>c \<in> set cur. \<not> is_linebreak c \<Longrightarrow> l \<in> set (splitlines_from cur s) \<Longrightarrow> c \<in> set l
   \<Longrightarrow> \<not> is_linebreak c"
  by (induction cur s rule: splitlines_from.induct) (auto split: if_splits)

lemma split_from_set:
  "p \<in> set (split_from cur s) \<Longrightarrow> set p \<subseteq> set cur \<union> set s"
  by (induction cur s rule: split_from.induct) (auto split: if_splits)

lemma strip_sublist: "sublist (strip s) s"
proof -
  have "prefix (rev (dropWhile isspace (rev (dropWhile isspace s)))) (dropWhile isspace s)"
    using suffix_dropWhile [of isspace "rev (dropWhile isspace s)"]
    by (simp add: suffix_to_prefix)
  moreover have "suffix (dropWhile isspace s) s" by (rule suffix_dropWhile)
  ultimately show ?thesis
    unfolding strip_def
    by (meson prefix_imp_sublist suffix_imp_sublist sublist_order.order_trans)
qed

lemma strip_set: "set (strip s) \<subseteq> set s"
  using strip_sublist [of s] by (rule set_mono_sublist)

subsection \<open>Adjacent spaces\<close>

lemma sublist_pair_Cons:
  "sublist [a, b] (x # xs) \<longleftrightarrow> (x = a \<and> xs \<noteq> [] \<and> hd xs = b) \<or> sublist [a, b] xs"
  by (cases xs) (auto simp: sublist_Cons_right)

lemma sublist_pair_append:
  "sublist [a, a] (xs @ ys) \<longleftrightarrow>
     sublist [a, a] xs \<or> sublist [a, a] ys \<or> (xs \<noteq> [] \<and> last xs = a \<and> ys \<noteq> [] \<and> hd ys = a)"
proof (induction xs)
  case Nil
  show ?case by simp
next
  case (Cons x xs)
  show ?case
  proof (cases xs)
    case Nil
    then show ?thesis by (cases ys) (auto simp: sublist_pair_Cons)
  next
    case (Cons y zs)
    with Cons.IH show ?thesis by (auto simp: sublist_pair_Cons)
  qed
qed

lemma split_from_no_double_space:
  assumes "\<not> sublist ''  '' cur"
    and "cur \<noteq> [] \<and> hd cur = CHR '' '' \<longrightarrow> s = [] \<or> hd s \<noteq> CHR '' ''"
    and "p \<in> set (split_from cur s)"
  shows "\<not> sublist ''  '' p"
  using assms
proof (induction cur s rule: split_from.induct)
  case (1 cur)
  have "sublist ''  '' (rev cur) = sublist (rev ''  '') (rev cur)" by simp
  also have "\<dots> = sublist ''  '' cur" by (simp only: sublist_rev)
  finally show ?case using 1 by simp
next
  case (2 cur c)
  have "sublist ''  '' (rev (c # cur)) = sublist (rev ''  '') (rev (c # cur))" by simp
  also have "\<dots> = sublist ''  '' (c # cur)" by (simp only: sublist_rev)
  finally show ?case using 2 by (auto simp: sublist_pair_Cons)
next
  case (3 cur c d cs)
  show ?case
  proof (cases "c = CHR '' '' \<and> d = CHR '' ''")
    case True
    with 3 show ?thesis
    proof (cases "p = rev cur")
      case True
      have "sublist ''  '' (rev cur) = sublist (rev ''  '') (rev cur)" by simp
      also have "\<dots> = sublist ''  '' cur" by (simp only: sublist_rev)
      finally show ?thesis using 3 True by simp
    next
      case False
      with 3 \<open>c = CHR '' '' \<and> d = CHR '' ''\<close> show ?thesis by auto
    qed
  next
    case False
    with 3 show ?thesis by (auto simp: sublist_pair_Cons)
  qed
qed

lemma strip_ends:
  assumes "strip s \<noteq> []"
  shows "\<not> isspace (hd (strip s)) \<and> \<not> isspace (last (strip s))"
proof -
  let ?ys = "dropWhile isspace s"
  from assms have ne: "dropWhile isspace (rev ?ys) \<noteq> []" by (simp add: strip_def)
  then have "?ys \<noteq> []" by (metis dropWhile.simps(1) rev.simps(1))
  then obtain y ys' where ys: "?ys = y # ys'" by (cases ?ys) auto
  have y: "\<not> isspace y" using hd_dropWhile [of isspace s] \<open>?ys \<noteq> []\<close> ys by simp
  have "dropWhile isspace (rev ys' @ [y]) = dropWhile isspace (rev ys') @ [y]"
    using y by (induction "rev ys'" arbitrary: ys') (auto simp: dropWhile_append)
  then have "strip s = y # rev (dropWhile isspace (rev ys'))"
    by (simp add: strip_def ys)
  then have "hd (strip s) = y" by simp
  moreover have "last (strip s) = hd (dropWhile isspace (rev ?ys))"
    using ne by (simp add: strip_def last_rev)
  moreover have "\<not> isspace (hd (dropWhile isspace (rev ?ys)))"
    using ne by (rule hd_dropWhile)
  ultimately show ?thesis using y by simp
qed

lemma strip_no_double_space: "\<not> sublist ''  '' s \<Longrightarrow> \<not> sublist ''  '' (strip s)"
  using strip_sublist [of s] sublist_order.order_trans by blast

lemma text_chunks_clean:
  assumes "c \<in> set (text_chunks t)"
  shows "clean_chunk c"
proof -
  from assms obtain l p where l: "l \<in> set (splitlines t)"
    and p: "p \<in> set (split_two_spaces (strip l))" and c: "c = strip p" and ne: "c \<noteq> []"
    by (auto simp: text_chunks_def)
  have lb: "\<forall>x \<in> set l. \<not> is_linebreak x"
    using splitlines_from_no_linebreak [of "[]" l t] l by (auto simp: splitlines_def)
  have "set p \<subseteq> set (strip l)"
    using split_from_set [of p "[]" "strip l"] p by (simp add: split_two_spaces_def)
  then have "set c \<subseteq> set l" using strip_set [of p] strip_set [of l] c by blast
  with lb have 1: "\<forall>x \<in> set c. \<not> is_linebreak x" by blast
  have "\<not> sublist ''  '' p"
    using split_from_no_double_space [of "[]" "strip l" p] p by (simp add: split_two_spaces_def)
  then have 2: "\<not> sublist ''  '' c" unfolding c by (rule strip_no_double_space)
  from strip_ends [of p] ne c have 3: "\<not> isspace (hd c) \<and> \<not> isspace (last c)" by simp
  from ne 1 2 3 show ?thesis by (simp add: clean_chunk_def)
qed

lemma space_isspace: "isspace CHR '' ''" "\<not> is_linebreak CHR '' ''"
  by (simp_all add: isspace_def is_linebreak_def)

lemma join_clean:
  assumes "\<forall>c \<in> set cs. clean_chunk c" "cs \<noteq> []"
  shows "join '' '' cs \<noteq> [] \<and> hd (join '' '' cs) = hd (hd cs)
       \<and> last (join '' '' cs) = last (last cs)
       \<and> \<not> sublist ''  '' (join '' '' cs)
       \<and> (\<forall>x \<in> set (join '' '' cs). \<not> is_linebreak x)"
  using assms
proof (induction "'' ''" cs rule: join.induct)
  case 1
  then show ?case by simp
next
  case (2 x)
  then show ?case by (simp add: clean_chunk_def)
next
  case (3 x y ys)
  let ?r = "join '' '' (y # ys)"
  from 3 have ih: "?r \<noteq> [] \<and> hd ?r = hd y \<and> last ?r = last (last (y # ys))
       \<and> \<not> sublist ''  '' ?r \<and> (\<forall>x \<in> set ?r. \<not> is_linebreak x)"
    by simp
  from 3 have x: "clean_chunk x" and y: "clean_chunk y" by simp_all
  have hdr: "hd ?r \<noteq> CHR '' ''" using ih y space_isspace by (auto simp: clean_chunk_def)
  have lastx: "last x \<noteq> CHR '' ''" using x space_isspace by (auto simp: clean_chunk_def)
  have a: "\<not> sublist ''  '' (CHR '' '' # ?r)"
    using ih hdr by (simp add: sublist_pair_Cons)
  have "\<not> sublist ''  '' (x @ CHR '' '' # ?r)"
    using x a lastx sublist_pair_append [of "CHR '' ''" x "CHR '' '' # ?r"]
    by (simp add: clean_chunk_def)
  moreover have "hd (x @ CHR '' '' # ?r) = hd x" using x by (simp add: clean_chunk_def)
  moreover have "last (x @ CHR '' '' # ?r) = last ?r" using ih by simp
  moreover have "\<forall>c \<in> set (x @ CHR '' '' # ?r). \<not> is_linebreak c"
    using x ih space_isspace by (auto simp: clean_chunk_def)
  ultimately show ?case using ih by simp
qed

lemma naive_text_normal:
  "\<not> sublist ''  '' (naive_text soup)
   \<and> (\<forall>x \<in> set (naive_text soup). \<not> is_linebreak x)
   \<and> (naive_text soup \<noteq> [] \<longrightarrow>
        \<not> isspace (hd (naive_text soup)) \<and> \<not> isspace (last (naive_text soup)))"
proof (cases "text_chunks (concat (concat (map visible_strings soup))) = []")
  case True
  then show ?thesis by (simp add: naive_text_chunks)
next
  case False
  let ?cs = "text_chunks (concat (concat (map visible_strings soup)))"
  have cl: "\<forall>c \<in> set ?cs. clean_chunk c" using text_chunks_clean by blast
  from join_clean [OF cl False] cl False show ?thesis
    by (auto simp: naive_text_chunks clean_chunk_def)
qed

lemma extract_text_cases:
  "extract_text_content w html =
     (if \<not> cleaner_passes w html then docs_cleaner w html
      else if \<not> pandoc_passes w html then pandoc w html
      else (case html_parser w html of Inl e \<Rightarrow> Inl e | Inr soup \<Rightarrow> Inr (naive_text soup)))"
  by (auto simp: extract_text_content_def fallback_pandoc_def fallback_naive_def
      cleaner_passes_def pandoc_passes_def split: sum.splits)

text \<open>
  Claim C3, as stated, fails: an exception of a class that the \<open>except\<close> clauses do
  not name leaves \<open>extract_text_content\<close>. Here the cleaner is installed and raises
  \<open>RuntimeError\<close>, and, on a host without the cleaner, running pandoc raises
  \<open>PermissionError\<close>.
\<close>

theorem extract_text_raises_counterexample:
  "extract_text_content crashing_cleaner_env ''<p>Hi</p>'' = Inl (Exn RuntimeError ''pandoc failed'')
   \<and> extract_text_content unrunnable_pandoc_env ''<p>Hi</p>''
       = Inl (Exn PermissionError ''Permission denied'')"
  by (simp add: extract_text_content_def fallback_pandoc_def crashing_cleaner_env_def
      unrunnable_pandoc_env_def demo_env_def)

text \<open>
  Claim C3, amended. \<open>extract_text_content\<close> returns the outcome of the first strategy
  that does not pass: the cleaner passes when it raises \<open>ImportError\<close> or returns
  blank output, the external renderer passes when it raises \<open>CalledProcessError\<close>,
  \<open>FileNotFoundError\<close> or \<open>TimeoutExpired\<close> or prints nothing, and after both the
  naive strategy returns the text of the parsed fragment. So the function returns a string
  and does not raise whenever the cleaner raises nothing but \<open>ImportError\<close>, the
  renderer raises nothing but these three, and the markup parser does not raise; an
  exception of another class is the outcome of the function.
\<close>

theorem extract_text_degrades:
  "(cleaner_passes w html \<and> pandoc_passes w html \<longrightarrow>
      extract_text_content w html
        = (case html_parser w html of Inl e \<Rightarrow> Inl e | Inr soup \<Rightarrow> Inr (naive_text soup)))
   \<and> (cleaner_passes w html \<and> \<not> pandoc_passes w html \<longrightarrow>
      extract_text_content w html = pandoc w html)
   \<and> (\<not> cleaner_passes w html \<longrightarrow> extract_text_content w html = docs_cleaner w html)
   \<and> ((\<forall>e. docs_cleaner w html = Inl e \<longrightarrow> exn_kind e = ImportError)
       \<and> (\<forall>e. pandoc w html = Inl e \<longrightarrow>
             exn_kind e \<in> set [CalledProcessError, FileNotFoundError, TimeoutExpired])
       \<and> (\<forall>e. html_parser w html \<noteq> Inl e)
      \<longrightarrow> (\<exists>s. extract_text_content w html = Inr s))"
proof -
  have "\<exists>s. extract_text_content w html = Inr s"
    if c: "\<forall>e. docs_cleaner w html = Inl e \<longrightarrow> exn_kind e = ImportError"
    and p: "\<forall>e. pandoc w html = Inl e \<longrightarrow>
             exn_kind e \<in> set [CalledProcessError, FileNotFoundError, TimeoutExpired]"
    and h: "\<forall>e. html_parser w html \<noteq> Inl e"
  proof (cases "cleaner_passes w html")
    case False
    with c obtain md where "docs_cleaner w html = Inr md"
      by (cases "docs_cleaner w html") (auto simp: cleaner_passes_def)
    with False show ?thesis by (simp add: extract_text_cases)
  next
    case True
    show ?thesis
    proof (cases "pandoc_passes w html")
      case False
      with p obtain out where "pandoc w html = Inr out"
        by (cases "pandoc w html") (auto simp: pandoc_passes_def)
      with False True show ?thesis by (simp add: extract_text_cases)
    next
      case pp: True
      from h obtain soup where "html_parser w html = Inr soup"
        by (cases "html_parser w html") auto
      with True pp show ?thesis by (simp add: extract_text_cases)
    qed
  qed
  then show ?thesis by (simp add: extract_text_cases)
qed

theorem extract_text_degrades_witness:
  "cleaner_passes demo_env ''<h2 id=x>C</h2>'' \<and> pandoc_passes demo_env ''<h2 id=x>C</h2>''
   \<and> extract_text_content demo_env ''<h2 id=x>C</h2>'' = Inr ''C''
   \<and> cleaner_passes pandoc_env ''<h2 id=x>C</h2>''
   \<and> extract_text_content pandoc_env ''<h2 id=x>C</h2>'' = Inr ''## C''"
proof -
  have 1: "cleaner_passes demo_env ''<h2 id=x>C</h2>''"
    by (simp add: cleaner_passes_def demo_env_def)
  have 2: "pandoc_passes demo_env ''<h2 id=x>C</h2>''"
    by (simp add: pandoc_passes_def demo_env_def)
  have 3: "html_parser demo_env ''<h2 id=x>C</h2>'' = Inr [Element ''h2'' [(''id'', ''x'')] [Text ''C'']]"
    by (simp add: demo_env_def demo_parser_def)
  have 4: "naive_text [Element ''h2'' [(''id'', ''x'')] [Text ''C'']] = ''C''"
    by code_simp
  have 5: "cleaner_passes pandoc_env ''<h2 id=x>C</h2>''"
    by (simp add: cleaner_passes_def pandoc_env_def demo_env_def)
  have 6: "\<not> pandoc_passes pandoc_env ''<h2 id=x>C</h2>''"
    by (simp add: pandoc_passes_def pandoc_env_def demo_env_def)
  have 7: "pandoc pandoc_env ''<h2 id=x>C</h2>'' = Inr ''## C''"
    by (simp add: pandoc_env_def)
  from extract_text_degrades [of demo_env "''<h2 id=x>C</h2>''"]
       extract_text_degrades [of pandoc_env "''<h2 id=x>C</h2>''"] 1 2 3 4 5 6 7
  show ?thesis by simp
qed

text \<open>
  Claim C7. When the first two strategies pass and the fragment parses to a tree, the
  result of \<open>extract_text_content\<close> is the text of the naive strategy. It is built
  from the strings outside \<open>script\<close> and \<open>style\<close> elements only: the retained
  fragments of their concatenation, joined by single spaces. Every retained fragment is
  clean, and the result has no two adjacent spaces, no line boundary and no whitespace at
  either end. For the tree of \<open><script>x()</script><style>y{}</style><p>Hello</p>\<close> the
  result is \<open>Hello\<close>: it contains neither \<open>x()\<close> nor \<open>y{}\<close>.
\<close>

theorem naive_fallback_drops_script_style:
  assumes "cleaner_passes w html" "pandoc_passes w html" "html_parser w html = Inr soup"
  shows "extract_text_content w html = Inr (naive_text soup)
    \<and> naive_text soup = join '' '' (text_chunks (concat (concat (map visible_strings soup))))
    \<and> (\<forall>c \<in> set (text_chunks (concat (concat (map visible_strings soup)))). clean_chunk c)
    \<and> \<not> sublist ''  '' (naive_text soup)
    \<and> (\<forall>x \<in> set (naive_text soup). \<not> is_linebreak x)
    \<and> (naive_text soup \<noteq> [] \<longrightarrow>
          \<not> isspace (hd (naive_text soup)) \<and> \<not> isspace (last (naive_text soup)))
    \<and> (soup = script_soup \<longrightarrow>
          naive_text soup = ''Hello'' \<and> \<not> sublist ''x()'' (naive_text soup)
          \<and> \<not> sublist ''y{}'' (naive_text soup) \<and> sublist ''Hello'' (naive_text soup))"
proof -
  have 1: "extract_text_content w html = Inr (naive_text soup)"
    using assms by (simp add: extract_text_cases)
  have 2: "\<forall>c \<in> set (text_chunks (concat (concat (map visible_strings soup)))). clean_chunk c"
    using text_chunks_clean by blast
  have 3: "naive_text script_soup = ''Hello''"
    by code_simp
  have 4: "\<not> sublist ''x()'' ''Hello''" "\<not> sublist ''y{}'' ''Hello''" "sublist ''Hello'' ''Hello''"
    by (simp_all add: sublist_Cons_right)
  from 1 2 3 4 naive_text_normal [of soup] naive_text_chunks [of soup] show ?thesis
    by simp
qed

theorem naive_fallback_drops_script_style_witness:
  "cleaner_passes demo_env ''<script>x()</script><style>y{}</style><p>Hello</p>''
   \<and> pandoc_passes demo_env ''<script>x()</script><style>y{}</style><p>Hello</p>''
   \<and> html_parser demo_env ''<script>x()</script><style>y{}</style><p>Hello</p>'' = Inr script_soup
   \<and> extract_text_content demo_env ''<script>x()</script><style>y{}</style><p>Hello</p>''
       = Inr ''Hello''
   \<and> naive_text
        [Element ''div'' []
           [Text (''  Multiple   words '' @ [CHR 0x0A] @ ''  and lines  ''),
            Element ''script'' [] [Text ''hidden()''], Element ''b'' [] [Text ''  here'']]]
       = ''Multiple words and lines here''"
proof -
  have 1: "cleaner_passes demo_env ''<script>x()</script><style>y{}</style><p>Hello</p>''"
    by (simp add: cleaner_passes_def demo_env_def)
  have 2: "pandoc_passes demo_env ''<script>x()</script><style>y{}</style><p>Hello</p>''"
    by (simp add: pandoc_passes_def demo_env_def)
  have 3: "html_parser demo_env ''<script>x()</script><style>y{}</style><p>Hello</p>''
            = Inr script_soup"
    by (simp add: demo_env_def demo_parser_def)
  have 4: "naive_text
        [Element ''div'' []
           [Text (''  Multiple   words '' @ [CHR 0x0A] @ ''  and lines  ''),
            Element ''script'' [] [Text ''hidden()''], Element ''b'' [] [Text ''  here'']]]
       = ''Multiple words and lines here''"
    by code_simp
  from naive_fallback_drops_script_style [OF 1 2 3]
  have 5: "extract_text_content demo_env ''<script>x()</script><style>y{}</style><p>Hello</p>''
             = Inr (naive_text script_soup)"
    and 6: "naive_text script_soup = ''Hello''"
    by blast+
  from 1 2 3 4 5 6 show ?thesis by simp
qed

section \<open>Properties of the page info extractor\<close>

lemma int_name_1_heading:
  "tag_name h \<in> set [''h2'', ''h3'', ''h4'', ''h5'', ''h6''] \<Longrightarrow>
   \<exists>l. int_name_1 (tag_name h) = Inr l \<and> heading_level h = Some l \<and> 2 \<le> l \<and> l \<le> 6"
  by (auto simp: int_name_1_def heading_level_def)

lemma is_section_iff:
  "is_section el \<longleftrightarrow>
     tag_name el \<in> set [''h2'', ''h3'', ''h4'', ''h5'', ''h6''] \<and> get_text_strip el \<noteq> []"
  by (auto simp: is_section_def heading_level_def)

lemma sections_loop_headings:
  assumes "\<forall>h \<in> set hs. tag_name h \<in> set [''h2'', ''h3'', ''h4'', ''h5'', ''h6'']"
  shows "sections_loop hs acc
           = Inr (acc @ map section_of (filter (\<lambda>h. get_text_strip h \<noteq> []) hs))"
  using assms
proof (induction hs arbitrary: acc)
  case Nil
  show ?case by simp
next
  case (Cons h hs)
  from Cons.prems have "tag_name h \<in> set [''h2'', ''h3'', ''h4'', ''h5'', ''h6'']" by simp
  from int_name_1_heading [OF this] obtain l
    where l: "int_name_1 (tag_name h) = Inr l" "heading_level h = Some l" by blast
  have ih: "sections_loop hs acc'
           = Inr (acc' @ map section_of (filter (\<lambda>h. get_text_strip h \<noteq> []) hs))" for acc'
    using Cons by simp
  show ?case by (simp add: Let_def l ih section_of_def)
qed

lemma page_info_of_soup_sections:
  "page_info_of_soup soup =
     Inr \<lparr>info_title = title_loop soup title_selectors,
          info_sections = map section_of (filter is_section (soup_elements soup))\<rparr>"
proof -
  let ?hs = "find_all [''h2'', ''h3'', ''h4'', ''h5'', ''h6''] soup"
  have "\<forall>h \<in> set ?hs. tag_name h \<in> set [''h2'', ''h3'', ''h4'', ''h5'', ''h6'']"
    by (simp add: find_all_def)
  from sections_loop_headings [OF this, of "[]"]
  have "sections_loop ?hs [] = Inr (map section_of (filter (\<lambda>h. get_text_strip h \<noteq> []) ?hs))"
    by simp
  moreover have "filter (\<lambda>h. get_text_strip h \<noteq> []) ?hs = filter is_section (soup_elements soup)"
    unfolding find_all_def filter_filter
    by (rule filter_cong) (auto simp: is_section_iff)
  ultimately show ?thesis by (simp add: page_info_of_soup_def Let_def)
qed

text \<open>
  Claim C8. For a fragment that parses to a tree, the sections returned by
  \<open>extract_page_info\<close> are the records \<open>{text, level, id}\<close> of exactly those
  elements of the tree, in document order, that are headings of level 2 to 6 with
  non-empty stripped text: one record per such element (equal records are kept, a
  heading inside another is listed after it), a level-1 heading gives none, and every
  recorded level lies between 2 and 6. For the headings \<open>h1("Intro")\<close>, \<open>h2("A")\<close>,
  \<open>h3("A.1")\<close>, \<open>h2("B")\<close> the sections are \<open>[{A,2},{A.1,3},{B,2}]\<close>.
\<close>

theorem sections_are_headings_2_to_6:
  assumes "html_parser w html = Inr soup"
  shows "\<exists>info. extract_page_info w html = Inr info
    \<and> info_sections info = map section_of (filter is_section (soup_elements soup))
    \<and> (\<forall>el \<in> set (soup_elements soup).
          is_section el \<longleftrightarrow>
            (heading_level el \<in> {Some 2, Some 3, Some 4, Some 5, Some 6}
             \<and> get_text_strip el \<noteq> []))
    \<and> (\<forall>s \<in> set (info_sections info). 2 \<le> sec_level s \<and> sec_level s \<le> 6 \<and> sec_text s \<noteq> [])
    \<and> (soup = outline_soup \<longrightarrow>
          info_sections info
            = [\<lparr>sec_text = ''A'', sec_level = 2, sec_id = []\<rparr>,
               \<lparr>sec_text = ''A.1'', sec_level = 3, sec_id = []\<rparr>,
               \<lparr>sec_text = ''B'', sec_level = 2, sec_id = []\<rparr>])"
proof -
  let ?info = "\<lparr>info_title = title_loop soup title_selectors,
          info_sections = map section_of (filter is_section (soup_elements soup))\<rparr>"
  have 1: "extract_page_info w html = Inr ?info"
    using assms by (simp add: extract_page_info_def page_info_of_soup_sections)
  have 2: "\<forall>el \<in> set (soup_elements soup).
          is_section el \<longleftrightarrow>
            (heading_level el \<in> {Some 2, Some 3, Some 4, Some 5, Some 6}
             \<and> get_text_strip el \<noteq> [])"
    by (auto simp: is_section_def split: option.splits)
  have 3: "\<forall>s \<in> set (info_sections ?info). 2 \<le> sec_level s \<and> sec_level s \<le> 6 \<and> sec_text s \<noteq> []"
    by (auto simp: section_of_def is_section_def split: option.splits)
  have 4: "map section_of (filter is_section (soup_elements outline_soup))
            = [\<lparr>sec_text = ''A'', sec_level = 2, sec_id = []\<rparr>,
               \<lparr>sec_text = ''A.1'', sec_level = 3, sec_id = []\<rparr>,
               \<lparr>sec_text = ''B'', sec_level = 2, sec_id = []\<rparr>]"
    by code_simp
  from 1 2 3 4 show ?thesis by simp
qed

theorem sections_are_headings_2_to_6_witness:
  "html_parser demo_env ''<h1>Intro</h1><h2>A</h2><h3>A.1</h3><h2>B</h2>'' = Inr outline_soup
   \<and> extract_page_info demo_env ''<h1>Intro</h1><h2>A</h2><h3>A.1</h3><h2>B</h2>''
       = Inr \<lparr>info_title = Some ''Intro'',
               info_sections = [\<lparr>sec_text = ''A'', sec_level = 2, sec_id = []\<rparr>,
                                \<lparr>sec_text = ''A.1'', sec_level = 3, sec_id = []\<rparr>,
                                \<lparr>sec_text = ''B'', sec_level = 2, sec_id = []\<rparr>]\<rparr>
   \<and> page_info_of_soup
        [Element ''div'' []
           [Element ''h2'' [(''id'', ''top'')] [Text '' Same ''], Element ''h3'' [] [Text ''  ''],
            Element ''h2'' [] [Element ''h4'' [] [Text ''Same'']]]]
       = Inr \<lparr>info_title = None,
               info_sections = [\<lparr>sec_text = ''Same'', sec_level = 2, sec_id = ''top''\<rparr>,
                                \<lparr>sec_text = ''Same'', sec_level = 2, sec_id = []\<rparr>,
                                \<lparr>sec_text = ''Same'', sec_level = 4, sec_id = []\<rparr>]\<rparr>"
proof -
  have h: "html_parser demo_env ''<h1>Intro</h1><h2>A</h2><h3>A.1</h3><h2>B</h2>''
            = Inr outline_soup"
    by (simp add: demo_env_def demo_parser_def)
  from sections_are_headings_2_to_6 [OF h] obtain info
    where i: "extract_page_info demo_env ''<h1>Intro</h1><h2>A</h2><h3>A.1</h3><h2>B</h2>''
               = Inr info"
      and s: "info_sections info
            = [\<lparr>sec_text = ''A'', sec_level = 2, sec_id = []\<rparr>,
               \<lparr>sec_text = ''A.1'', sec_level = 3, sec_id = []\<rparr>,
               \<lparr>sec_text = ''B'', sec_level = 2, sec_id = []\<rparr>]"
    by blast
  have t: "title_loop outline_soup title_selectors = Some ''Intro''"
    by code_simp
  have "info_title info = Some ''Intro''"
    using i h t by (auto simp: extract_page_info_def page_info_of_soup_sections)
  with s have "info = \<lparr>info_title = Some ''Intro'',
               info_sections = [\<lparr>sec_text = ''A'', sec_level = 2, sec_id = []\<rparr>,
                                \<lparr>sec_text = ''A.1'', sec_level = 3, sec_id = []\<rparr>,
                                \<lparr>sec_text = ''B'', sec_level = 2, sec_id = []\<rparr>]\<rparr>"
    by (cases info) simp
  moreover have "page_info_of_soup
        [Element ''div'' []
           [Element ''h2'' [(''id'', ''top'')] [Text '' Same ''], Element ''h3'' [] [Text ''  ''],
            Element ''h2'' [] [Element ''h4'' [] [Text ''Same'']]]]
       = Inr \<lparr>info_title = None,
               info_sections = [\<lparr>sec_text = ''Same'', sec_level = 2, sec_id = ''top''\<rparr>,
                                \<lparr>sec_text = ''Same'', sec_level = 2, sec_id = []\<rparr>,
                                \<lparr>sec_text = ''Same'', sec_level = 4, sec_id = []\<rparr>]\<rparr>"
    by code_simp
  ultimately show ?thesis using h i by simp
qed

section \<open>Properties of the docset page aggregator\<close>

lemma get_doc_content_client:
  "snd (get_doc_content w c slug path) = after_requests c [content_url c slug path]"
  by (simp add: get_doc_content_def http_get_def content_url_def after_requests_def
      split: sum.splits prod.splits)

lemma process_entry_page:
  "process_entry w slug inc c e =
     (page_for w c slug inc e, after_requests c (fetched_urls c slug inc [e]))"
proof (cases "inc \<and> has_path e")
  case False
  then show ?thesis
    by (auto simp: process_entry_def page_for_def basic_page_def has_path_def path_of_def
        fetched_urls_def after_requests_def Let_def)
next
  case True
  obtain r c1 where g: "get_doc_content w c slug (path_of e) = (r, c1)"
    by (cases "get_doc_content w c slug (path_of e)")
  then have c1: "c1 = after_requests c [content_url c slug (path_of e)]"
    using get_doc_content_client [of w c slug "path_of e"] by simp
  show ?thesis
    using True g c1
    by (auto simp: process_entry_def page_for_def basic_page_def failed_page_def
        detailed_page_def has_path_def path_of_def fetched_urls_def fetch_details_def Let_def
        split: sum.splits)
qed

lemma after_requests_simps:
  "after_requests c [] = c"
  "after_requests (after_requests c xs) ys = after_requests c (xs @ ys)"
  "base_url (after_requests c xs) = base_url c"
  "docs_cache (after_requests c xs) = docs_cache c"
  "requests (after_requests c xs) = requests c @ xs"
  by (simp_all add: after_requests_def)

lemma fetched_urls_after:
  "fetched_urls (after_requests c xs) slug inc es = fetched_urls c slug inc es"
  by (simp add: fetched_urls_def content_url_def after_requests_def)

lemma fetched_urls_Nil: "fetched_urls c slug inc [] = []"
  by (simp add: fetched_urls_def)

lemma fetched_urls_Cons:
  "fetched_urls c slug inc (e # es) = fetched_urls c slug inc [e] @ fetched_urls c slug inc es"
  by (simp add: fetched_urls_def)

lemma pages_loop_char:
  "pages_loop w slug inc c es acc =
     (acc @ map (\<lambda>i. page_for w (after_requests c (fetched_urls c slug inc (take i es))) slug inc
                        (es ! i)) [0..<length es],
      after_requests c (fetched_urls c slug inc es))"
proof (induction es arbitrary: c acc)
  case Nil
  show ?case by (simp add: after_requests_simps fetched_urls_Nil)
next
  case (Cons e es)
  let ?c1 = "after_requests c (fetched_urls c slug inc [e])"
  have step: "pages_loop w slug inc c (e # es) acc
        = pages_loop w slug inc ?c1 es (acc @ [page_for w c slug inc e])"
    by (simp add: process_entry_page)
  have shift: "map (\<lambda>i. page_for w (after_requests c (fetched_urls c slug inc (take i (e # es))))
                          slug inc ((e # es) ! i)) [0..<length (e # es)]
      = page_for w c slug inc e
        # map (\<lambda>i. page_for w (after_requests ?c1 (fetched_urls ?c1 slug inc (take i es)))
                          slug inc (es ! i)) [0..<length es]"
  proof -
    have el: "page_for w (after_requests c (fetched_urls c slug inc (take (Suc i) (e # es))))
                  slug inc ((e # es) ! Suc i)
            = page_for w (after_requests ?c1 (fetched_urls ?c1 slug inc (take i es))) slug inc
                (es ! i)" for i
      by (simp only: take_Suc_Cons nth_Cons_Suc fetched_urls_Cons [of c slug inc e "take i es"]
          after_requests_simps(2) fetched_urls_after)
    have first: "page_for w (after_requests c (fetched_urls c slug inc (take 0 (e # es))))
                  slug inc ((e # es) ! 0) = page_for w c slug inc e"
      by (simp add: fetched_urls_Nil after_requests_simps(1))
    show ?thesis
      by (simp only: length_Cons map_upt_Suc el first)
  qed
  have fin: "after_requests ?c1 (fetched_urls ?c1 slug inc es)
           = after_requests c (fetched_urls c slug inc (e # es))"
    by (simp only: after_requests_simps(2) fetched_urls_after
        fetched_urls_Cons [of c slug inc e es])
  show ?case
    unfolding step Cons.IH shift fin by simp
qed

lemma list_all_docset_pages_char:
  assumes "get_doc_index w c slug = (Inr idx, c1)"
  shows "list_all_docset_pages w c slug inc =
     (Inr (map (\<lambda>i. page_for w (after_requests c1
                      (fetched_urls c1 slug inc (take i (get_default (entries idx) []))))
                      slug inc (get_default (entries idx) [] ! i))
             [0..<length (get_default (entries idx) [])]),
      after_requests c1 (fetched_urls c1 slug inc (get_default (entries idx) [])))"
  using assms by (simp add: list_all_docset_pages_def pages_loop_char)

lemma list_all_docset_pages_fails:
  assumes "get_doc_index w c slug = (Inl ex, c1)"
  shows "list_all_docset_pages w c slug inc =
     (Inl (Exn Exception (''Failed to list pages for '' @ slug @ '': '' @ str ex)), c1)"
  using assms by (simp add: list_all_docset_pages_def)

lemma get_doc_index_client:
  "snd (get_doc_index w c slug) = after_requests c [index_url c slug]"
  by (simp add: get_doc_index_def http_get_def index_url_def after_requests_def
      split: sum.splits prod.splits)

lemma page_forms_keys:
  "map fst (basic_page e) = page_keys"
  "map fst (failed_page e ex) = page_keys @ [''error'']"
  "map fst (detailed_page e d) = page_keys"
  by (simp_all add: basic_page_def failed_page_def detailed_page_def page_keys_def)

lemma basic_page_lookup:
  "map_of (basic_page e) ''name'' = Some (PyStr (get_default (entry_name e) []))"
  "map_of (basic_page e) ''path'' = Some (PyStr (path_of e))"
  "map_of (basic_page e) ''type'' = Some (PyStr (get_default (entry_type e) []))"
  "map_of (basic_page e) ''title'' = Some PyNone"
  "map_of (basic_page e) ''sections'' = Some (PySections [])"
  "map_of (basic_page e) ''error'' = None"
  by (simp_all add: basic_page_def)

lemma failed_page_lookup:
  "map_of (failed_page e ex) ''name'' = Some (PyStr (get_default (entry_name e) []))"
  "map_of (failed_page e ex) ''path'' = Some (PyStr (path_of e))"
  "map_of (failed_page e ex) ''type'' = Some (PyStr (get_default (entry_type e) []))"
  "map_of (failed_page e ex) ''title'' = Some PyNone"
  "map_of (failed_page e ex) ''sections'' = Some (PySections [])"
  "map_of (failed_page e ex) ''error'' = Some (PyStr (''Could not fetch content: '' @ str ex))"
  by (simp_all add: failed_page_def basic_page_def)

lemma detailed_page_lookup:
  "map_of (detailed_page e d) ''name'' = Some (PyStr (get_default (entry_name e) []))"
  "map_of (detailed_page e d) ''path'' = Some (PyStr (path_of e))"
  "map_of (detailed_page e d) ''type'' = Some (PyStr (get_default (entry_type e) []))"
  "map_of (detailed_page e d) ''title'' = Some (title_val (info_title d))"
  "map_of (detailed_page e d) ''sections'' = Some (PySections (info_sections d))"
  "map_of (detailed_page e d) ''error'' = None"
  by (simp_all add: detailed_page_def)

lemma page_for_cases:
  "(\<not> (inc \<and> has_path e) \<and> page_for w c slug inc e = basic_page e)
   \<or> (inc \<and> has_path e \<and> (\<exists>ex. fetch_details w c slug (path_of e) = Inl ex
          \<and> page_for w c slug inc e = failed_page e ex))
   \<or> (inc \<and> has_path e \<and> (\<exists>d. fetch_details w c slug (path_of e) = Inr d
          \<and> page_for w c slug inc e = detailed_page e d))"
  by (cases "fetch_details w c slug (path_of e)") (auto simp: page_for_def)

text \<open>
  Claim C2. Once the Index is fetched, \<open>list_all_docset_pages\<close> with sections
  included returns a listing, whatever happens to the single pages: one Page per Entry,
  in the order of the Index, each with the name, path and type of its Entry. The Page of
  an Entry whose content fetch or page-info extraction raises is the minimal Page with an
  \<open>error\<close> string added, its title \<open>None\<close> and its sections empty; the Page of an
  Entry for which both succeed carries the extracted title and sections and has no
  \<open>error\<close> key. The outcome for an Entry is that of the request it sends on the
  instance as it stands after the requests of the entries before it, and every such entry
  with a path sends exactly one request, failed or not: a failure changes no other Page.
\<close>

theorem page_failures_are_isolated:
  assumes "get_doc_index w c slug = (Inr idx, c1)"
  shows "\<exists>pages c2. list_all_docset_pages w c slug True = (Inr pages, c2)
    \<and> length pages = length (get_default (entries idx) [])
    \<and> (\<forall>i < length (get_default (entries idx) []).
         map_of (pages ! i) ''name''
           = Some (PyStr (get_default (entry_name (get_default (entries idx) [] ! i)) []))
       \<and> map_of (pages ! i) ''path'' = Some (PyStr (path_of (get_default (entries idx) [] ! i)))
       \<and> map_of (pages ! i) ''type''
           = Some (PyStr (get_default (entry_type (get_default (entries idx) [] ! i)) []))
       \<and> (\<not> has_path (get_default (entries idx) [] ! i) \<longrightarrow>
            pages ! i = basic_page (get_default (entries idx) [] ! i))
       \<and> (has_path (get_default (entries idx) [] ! i) \<longrightarrow>
            (case fetch_details w
                    (after_requests c1
                       (fetched_urls c1 slug True (take i (get_default (entries idx) []))))
                    slug (path_of (get_default (entries idx) [] ! i)) of
               Inl ex \<Rightarrow>
                 pages ! i = failed_page (get_default (entries idx) [] ! i) ex
                 \<and> map_of (pages ! i) ''error''
                     = Some (PyStr (''Could not fetch content: '' @ str ex))
                 \<and> map_of (pages ! i) ''title'' = Some PyNone
                 \<and> map_of (pages ! i) ''sections'' = Some (PySections [])
             | Inr details \<Rightarrow>
                 pages ! i = detailed_page (get_default (entries idx) [] ! i) details
                 \<and> map_of (pages ! i) ''error'' = None
                 \<and> map_of (pages ! i) ''title'' = Some (title_val (info_title details))
                 \<and> map_of (pages ! i) ''sections'' = Some (PySections (info_sections details)))))"
proof -
  let ?es = "get_default (entries idx) []"
  let ?ci = "\<lambda>i. after_requests c1 (fetched_urls c1 slug True (take i ?es))"
  let ?pages = "map (\<lambda>i. page_for w (?ci i) slug True (?es ! i)) [0..<length ?es]"
  have run: "list_all_docset_pages w c slug True
      = (Inr ?pages, after_requests c1 (fetched_urls c1 slug True ?es))"
    using assms by (rule list_all_docset_pages_char)
  have len: "length ?pages = length ?es" by simp
  have each: "map_of (?pages ! i) ''name'' = Some (PyStr (get_default (entry_name (?es ! i)) []))
       \<and> map_of (?pages ! i) ''path'' = Some (PyStr (path_of (?es ! i)))
       \<and> map_of (?pages ! i) ''type'' = Some (PyStr (get_default (entry_type (?es ! i)) []))
       \<and> (\<not> has_path (?es ! i) \<longrightarrow> ?pages ! i = basic_page (?es ! i))
       \<and> (has_path (?es ! i) \<longrightarrow>
            (case fetch_details w (?ci i) slug (path_of (?es ! i)) of
               Inl ex \<Rightarrow>
                 ?pages ! i = failed_page (?es ! i) ex
                 \<and> map_of (?pages ! i) ''error''
                     = Some (PyStr (''Could not fetch content: '' @ str ex))
                 \<and> map_of (?pages ! i) ''title'' = Some PyNone
                 \<and> map_of (?pages ! i) ''sections'' = Some (PySections [])
             | Inr details \<Rightarrow>
                 ?pages ! i = detailed_page (?es ! i) details
                 \<and> map_of (?pages ! i) ''error'' = None
                 \<and> map_of (?pages ! i) ''title'' = Some (title_val (info_title details))
                 \<and> map_of (?pages ! i) ''sections'' = Some (PySections (info_sections details))))"
    if i: "i < length ?es" for i
  proof -
    have p: "?pages ! i = page_for w (?ci i) slug True (?es ! i)"
      using i by simp
    show ?thesis
      unfolding p
      using page_for_cases [of True "?es ! i" w "?ci i" slug]
      by (auto simp: basic_page_lookup failed_page_lookup detailed_page_lookup)
  qed
  from run len each show ?thesis by blast
qed

lemma demo_svelte_index:
  "get_doc_index demo_env new_client ''svelte''
     = (Inr \<lparr>entries = Some svelte_entries, types = []\<rparr>,
        new_client\<lparr>requests := [''http://h/docs/svelte/index.json'']\<rparr>)"
  by (simp add: get_doc_index_def http_get_def demo_env_def new_client_def demo_net_def
      raise_for_status_def ok_response_def demo_json_index_def)

lemma demo_svelte_listing:
  "list_all_docset_pages demo_env new_client ''svelte'' True
     = (Inr svelte_pages,
        new_client\<lparr>requests :=
          [''http://h/docs/svelte/index.json'', ''http://h/docs/svelte/a.html'',
           ''http://h/docs/svelte/b.html'', ''http://h/docs/svelte/c.html'',
           ''http://h/docs/svelte/f.html'']\<rparr>)"
  by code_simp

theorem page_failures_are_isolated_witness:
  "get_doc_index demo_env new_client ''svelte''
     = (Inr \<lparr>entries = Some svelte_entries, types = []\<rparr>,
        new_client\<lparr>requests := [''http://h/docs/svelte/index.json'']\<rparr>)
   \<and> fst (list_all_docset_pages demo_env new_client ''svelte'' True) = Inr svelte_pages
   \<and> length svelte_pages = length svelte_entries
   \<and> map_of (svelte_pages ! 1) ''error'' = Some (PyStr ''Could not fetch content: timed out'')
   \<and> map_of (svelte_pages ! 1) ''title'' = Some PyNone
   \<and> map_of (svelte_pages ! 2) ''error'' = None"
proof -
  from page_failures_are_isolated [OF demo_svelte_index]
  obtain pages c2 where "list_all_docset_pages demo_env new_client ''svelte'' True = (Inr pages, c2)"
    and "length pages = length (get_default (entries \<lparr>entries = Some svelte_entries, types = []\<rparr>) [])"
    by blast
  then have "length svelte_pages = length svelte_entries"
    by (simp add: demo_svelte_listing get_default_def)
  then show ?thesis
    by (simp add: demo_svelte_index demo_svelte_listing svelte_pages_def)
qed

text \<open>
  Claim C9. Every Page of a listing has the five keys \<open>name\<close>, \<open>path\<close>,
  \<open>type\<close>, \<open>title\<close>, \<open>sections\<close>, and no other key but possibly \<open>error\<close>.
  An Entry whose path is empty or missing, and every Entry when sections are not included,
  gives the minimal Page, with no \<open>error\<close> key, and sends no content request: the
  requests of the listing are the one for the Index and one for each Entry with a
  non-empty path when sections are included. So an \<open>error\<close> key appears only for an
  Entry with a non-empty path when sections are included, with title \<open>None\<close> and empty
  sections; and a title other than \<open>None\<close> or non-empty sections appear only when the
  extraction for that Entry succeeded.
\<close>

theorem pages_have_five_keys:
  assumes "list_all_docset_pages w c slug inc = (Inr pages, c2)"
  shows "\<exists>idx c1. get_doc_index w c slug = (Inr idx, c1)
    \<and> length pages = length (get_default (entries idx) [])
    \<and> requests c1 = requests c @ [index_url c slug]
    \<and> requests c2
        = requests c1
          @ (if inc then map (\<lambda>e. content_url c slug (path_of e))
                           (filter has_path (get_default (entries idx) []))
             else [])
    \<and> (\<forall>i < length (get_default (entries idx) []).
          set page_keys \<subseteq> fst ` set (pages ! i)
        \<and> fst ` set (pages ! i) \<subseteq> insert ''error'' (set page_keys)
        \<and> (\<not> inc \<or> \<not> has_path (get_default (entries idx) [] ! i) \<longrightarrow>
              pages ! i = basic_page (get_default (entries idx) [] ! i)
              \<and> map_of (pages ! i) ''error'' = None)
        \<and> (map_of (pages ! i) ''error'' \<noteq> None \<longrightarrow>
              inc \<and> has_path (get_default (entries idx) [] ! i)
              \<and> map_of (pages ! i) ''title'' = Some PyNone
              \<and> map_of (pages ! i) ''sections'' = Some (PySections []))
        \<and> (map_of (pages ! i) ''title'' \<noteq> Some PyNone
             \<or> map_of (pages ! i) ''sections'' \<noteq> Some (PySections []) \<longrightarrow>
              inc \<and> has_path (get_default (entries idx) [] ! i)
              \<and> (\<exists>details.
                    fetch_details w
                      (after_requests c1
                         (fetched_urls c1 slug inc (take i (get_default (entries idx) []))))
                      slug (path_of (get_default (entries idx) [] ! i)) = Inr details)))"
proof -
  obtain r c1 where g: "get_doc_index w c slug = (r, c1)"
    by (cases "get_doc_index w c slug")
  from assms g obtain idx where r: "r = Inr idx"
    by (cases r) (auto simp: list_all_docset_pages_def)
  let ?es = "get_default (entries idx) []"
  let ?ci = "\<lambda>i. after_requests c1 (fetched_urls c1 slug inc (take i ?es))"
  from g r have gi: "get_doc_index w c slug = (Inr idx, c1)" by simp
  have c1: "c1 = after_requests c [index_url c slug]"
    using get_doc_index_client [of w c slug] g by simp
  from list_all_docset_pages_char [OF gi, of inc] assms
  have pages: "pages = map (\<lambda>i. page_for w (?ci i) slug inc (?es ! i)) [0..<length ?es]"
    and c2: "c2 = after_requests c1 (fetched_urls c1 slug inc ?es)"
    by simp_all
  have len: "length pages = length ?es" by (simp add: pages)
  have r1: "requests c1 = requests c @ [index_url c slug]"
    by (simp add: c1 after_requests_simps)
  have r2: "requests c2 = requests c1
          @ (if inc then map (\<lambda>e. content_url c slug (path_of e)) (filter has_path ?es) else [])"
    by (simp add: c2 after_requests_simps fetched_urls_def content_url_def c1)
  have each: "set page_keys \<subseteq> fst ` set (pages ! i)
        \<and> fst ` set (pages ! i) \<subseteq> insert ''error'' (set page_keys)
        \<and> (\<not> inc \<or> \<not> has_path (?es ! i) \<longrightarrow>
              pages ! i = basic_page (?es ! i) \<and> map_of (pages ! i) ''error'' = None)
        \<and> (map_of (pages ! i) ''error'' \<noteq> None \<longrightarrow>
              inc \<and> has_path (?es ! i)
              \<and> map_of (pages ! i) ''title'' = Some PyNone
              \<and> map_of (pages ! i) ''sections'' = Some (PySections []))
        \<and> (map_of (pages ! i) ''title'' \<noteq> Some PyNone
             \<or> map_of (pages ! i) ''sections'' \<noteq> Some (PySections []) \<longrightarrow>
              inc \<and> has_path (?es ! i)
              \<and> (\<exists>details. fetch_details w (?ci i) slug (path_of (?es ! i)) = Inr details))"
    if i: "i < length ?es" for i
  proof -
    have p: "pages ! i = page_for w (?ci i) slug inc (?es ! i)"
      using i by (simp add: pages)
    have k: "fst ` set q = set (map fst q)" for q :: page by simp
    from page_for_cases [of inc "?es ! i" w "?ci i" slug]
    consider (basic) "\<not> (inc \<and> has_path (?es ! i))" "pages ! i = basic_page (?es ! i)"
      | (failed) ex where "inc" "has_path (?es ! i)" "pages ! i = failed_page (?es ! i) ex"
      | (detailed) d where "inc" "has_path (?es ! i)"
          "fetch_details w (?ci i) slug (path_of (?es ! i)) = Inr d"
          "pages ! i = detailed_page (?es ! i) d"
      unfolding p by blast
    then show ?thesis
    proof cases
      case basic
      then show ?thesis
        by (simp only: k page_forms_keys basic_page_lookup) auto
    next
      case failed
      then show ?thesis
        by (simp only: k page_forms_keys failed_page_lookup) auto
    next
      case detailed
      then show ?thesis
        by (simp only: k page_forms_keys detailed_page_lookup) auto
    qed
  qed
  from gi len r1 r2 each show ?thesis by blast
qed

theorem pages_have_five_keys_witness:
  "list_all_docset_pages demo_env new_client ''svelte'' True
     = (Inr svelte_pages,
        new_client\<lparr>requests :=
          [''http://h/docs/svelte/index.json'', ''http://h/docs/svelte/a.html'',
           ''http://h/docs/svelte/b.html'', ''http://h/docs/svelte/c.html'',
           ''http://h/docs/svelte/f.html'']\<rparr>)
   \<and> length svelte_pages = 6
   \<and> path_of (svelte_entries ! 3) = [] \<and> entry_path (svelte_entries ! 4) = None
   \<and> map fst (svelte_pages ! 3) = page_keys \<and> map fst (svelte_pages ! 4) = page_keys
   \<and> map fst (svelte_pages ! 1) = page_keys @ [''error'']
   \<and> fst (list_all_docset_pages demo_env new_client ''svelte'' False)
       = Inr (map basic_page svelte_entries)"
proof -
  from pages_have_five_keys [OF demo_svelte_listing]
  have "length svelte_pages = length svelte_entries"
    by (auto simp: demo_svelte_index get_default_def)
  then have "length svelte_pages = 6" by (simp add: svelte_entries_def)
  moreover have "fst (list_all_docset_pages demo_env new_client ''svelte'' False)
       = Inr (map basic_page svelte_entries)"
    by code_simp
  moreover have "path_of (svelte_entries ! 3) = [] \<and> entry_path (svelte_entries ! 4) = None"
    by (simp add: svelte_entries_def path_of_def mk_entry_def get_default_def)
  ultimately show ?thesis
    by (simp add: demo_svelte_listing svelte_pages_def page_keys_def)
qed

end
